theory Spec2Isabelle
  imports Complex_Main "HOL-Library.Multiset"
begin

section \<open>Strings\<close>

text \<open>
  Python strings are modelled as \<open>string\<close>, a character being a code point below
  256. \<open>is_space\<close> holds of the code points below 256 that \<open>str.isspace\<close> accepts. Only
  the ASCII part of the regular-expression class \<open>\d\<close> and of case folding is modelled.
\<close>

definition is_space :: "char \<Rightarrow> bool" where
  "is_space c = (c \<in> set [CHR 0x09, CHR 0x0A, CHR 0x0B, CHR 0x0C, CHR 0x0D,
                           CHR 0x1C, CHR 0x1D, CHR 0x1E, CHR 0x1F, CHR 0x20,
                           CHR 0x85, CHR 0xA0])"

text \<open>\<open>s.strip()\<close>: leading and trailing whitespace removed.\<close>

definition strip :: "string \<Rightarrow> string" where
  "strip s = rev (dropWhile is_space (rev (dropWhile is_space s)))"

definition to_lower :: "char \<Rightarrow> char" where
  "to_lower c =
     (case map_of (zip ''ABCDEFGHIJKLMNOPQRSTUVWXYZ'' ''abcdefghijklmnopqrstuvwxyz'') c of
        None \<Rightarrow> c
      | Some l \<Rightarrow> l)"

text \<open>The \<open>iexact\<close> lookup of the ORM: equality of two strings ignoring case.\<close>

definition iexact :: "string \<Rightarrow> string \<Rightarrow> bool" where
  "iexact a b = (map to_lower a = map to_lower b)"

definition is_digit :: "char \<Rightarrow> bool" where
  "is_digit c = (c \<in> set ''0123456789'')"

section \<open>Exceptions\<close>

text \<open>
  \<open>GraphQLError m\<close> is the error the validators raise, \<open>OtherException m\<close> any
  other subclass of \<open>Exception\<close>; \<open>m\<close> is \<open>str(e)\<close>.
\<close>

datatype exn = GraphQLError string | OtherException string

section \<open>Entity store\<close>

record customer =
  c_pk :: int
  c_name :: string
  c_email :: string
  c_phone :: string

text \<open>
  A \<open>Decimal\<close> with coefficient \<open>c\<close> and exponent \<open>e\<close> is the number \<open>c * 10 ^ e\<close>;
  \<open>Decimal("0.00")\<close> is \<open>Decimal 0 (- 2)\<close>. These are the finite values; the sign of a
  zero and the bounds of the exponent are not modelled.
\<close>

datatype decimal = Decimal int int

record product =
  p_pk :: int
  p_name :: string
  p_price :: decimal
  p_stock :: int

record order =
  o_pk :: int
  o_customer :: int
  o_order_date :: nat
  o_total_amount :: decimal

text \<open>
  The three tables and the association table of \<open>Order.products\<close>, whose rows are
  pairs (order key, product key).
\<close>

record store =
  customers :: "customer list"
  products :: "product list"
  orders :: "order list"
  order_products :: "(int \<times> int) list"

text \<open>
  The write path of the database is outside the source: \<open>save_error st row\<close> is the
  message of the exception that saving \<open>row\<close> in \<open>st\<close> raises (a constraint of the
  table, a storage fault), \<open>None\<close> when the row is written.
\<close>

type_synonym save_error = "store \<Rightarrow> customer \<Rightarrow> string option"

definition no_error :: save_error where
  "no_error st row = None"

text \<open>A new row gets the next primary key of its table.\<close>

definition next_pk :: "int list \<Rightarrow> int" where
  "next_pk pks = fold max pks 0 + 1"

text \<open>\<open>Customer(name=..., email=..., phone=...).save()\<close>\<close>

definition Customer_save ::
  "save_error \<Rightarrow> store \<Rightarrow> string \<Rightarrow> string \<Rightarrow> string \<Rightarrow> exn + (customer \<times> store)" where
  "Customer_save err st nm em ph =
     (let row = \<lparr>c_pk = next_pk (map c_pk (customers st)), c_name = nm, c_email = em,
                 c_phone = ph\<rparr>
      in case err st row of
           Some m \<Rightarrow> Inl (OtherException m)
         | None \<Rightarrow> Inr (row, st\<lparr>customers := customers st @ [row]\<rparr>))"

section \<open>Validators\<close>

definition EMAIL_EXISTS_MSG :: string where
  "EMAIL_EXISTS_MSG = ''Email already exists.''"

text \<open>
  \<open>PHONE_RE = ^(\+\d{10,15}|\d{3}-\d{3}-\d{4})$\<close>, used with \<open>match\<close>: the \<open>$\<close>
  also matches before one final newline.
\<close>

definition phone_alternatives :: "string \<Rightarrow> bool" where
  "phone_alternatives s =
     ((case s of
         [] \<Rightarrow> False
       | c # ds \<Rightarrow> c = CHR ''+'' \<and> 10 \<le> length ds \<and> length ds \<le> 15 \<and> list_all is_digit ds)
      \<or> (case s of
            [a, b, c, d, e, f, g, h, i, j, k, l] \<Rightarrow>
              list_all is_digit [a, b, c] \<and> d = CHR ''-'' \<and> list_all is_digit [e, f, g]
              \<and> h = CHR ''-'' \<and> list_all is_digit [i, j, k, l]
          | _ \<Rightarrow> False))"

definition PHONE_RE_match :: "string \<Rightarrow> bool" where
  "PHONE_RE_match s =
     (phone_alternatives s \<or> (s \<noteq> [] \<and> last s = CHR 0x0A \<and> phone_alternatives (butlast s)))"

text \<open>A validator returns \<open>None\<close> when it passes and the exception it raises otherwise.\<close>

definition validate_email_unique :: "store \<Rightarrow> string \<Rightarrow> exn option" where
  "validate_email_unique st email =
     (if list_ex (\<lambda>c. iexact (c_email c) email) (customers st)
      then Some (GraphQLError EMAIL_EXISTS_MSG) else None)"

text \<open>\<open>if phone and not PHONE_RE.match(phone)\<close>: an absent or empty phone passes.\<close>

definition validate_phone :: "string option \<Rightarrow> exn option" where
  "validate_phone phone =
     (case phone of
        None \<Rightarrow> None
      | Some p \<Rightarrow>
          if p \<noteq> [] \<and> \<not> PHONE_RE_match p
          then Some (GraphQLError ''Invalid phone format. Use +1234567890 or 123-456-7890.'')
          else None)"

text \<open>\<open>phone or ""\<close>\<close>

definition phone_or_empty :: "string option \<Rightarrow> string" where
  "phone_or_empty phone = (case phone of None \<Rightarrow> [] | Some p \<Rightarrow> p)"

section \<open>CreateCustomer\<close>

record create_customer_result =
  cc_ok :: bool
  cc_message :: string
  cc_customer :: customer

text \<open>
  \<open>CreateCustomer.mutate\<close>. The result is the value returned or the exception
  raised, together with the store the call leaves.
\<close>

definition CreateCustomer_mutate ::
  "save_error \<Rightarrow> store \<Rightarrow> string \<Rightarrow> string \<Rightarrow> string option
   \<Rightarrow> (exn + create_customer_result) \<times> store" where
  "CreateCustomer_mutate err st name email phone =
     (case validate_email_unique st email of
        Some e \<Rightarrow> (Inl e, st)
      | None \<Rightarrow>
          (case validate_phone phone of
             Some e \<Rightarrow> (Inl e, st)
           | None \<Rightarrow>
               (case Customer_save err st (strip name) (strip email) (phone_or_empty phone) of
                  Inl e \<Rightarrow> (Inl e, st)
                | Inr (customer, st') \<Rightarrow>
                    (Inr \<lparr>cc_ok = True, cc_message = ''Customer created.'',
                          cc_customer = customer\<rparr>, st'))))"

section \<open>BulkCreateCustomers\<close>

text \<open>
  \<open>CustomerInput\<close>: name and email are required strings, phone is optional. The
  argument is a list of such inputs whose elements may be null (\<open>None\<close>).
\<close>

record CustomerInput =
  ci_name :: string
  ci_email :: string
  ci_phone :: "string option"

record BulkErrorType =
  be_index :: nat
  be_email :: "string option"
  be_message :: string

text \<open>The message of the \<open>AttributeError\<close> that \<open>c.name\<close> raises on a null element.\<close>

definition NoneType_name_msg :: string where
  "NoneType_name_msg =
     [CHR 0x27] @ ''NoneType'' @ [CHR 0x27] @ '' object has no attribute ''
     @ [CHR 0x27] @ ''name'' @ [CHR 0x27]"

text \<open>
  \<open>obj.save()\<close> inside \<open>transaction.atomic()\<close>: a save that raises marks the
  connection as needing a rollback. The second component is that mark.
\<close>

definition save_in_atomic ::
  "save_error \<Rightarrow> store \<Rightarrow> string \<Rightarrow> string \<Rightarrow> string
   \<Rightarrow> (exn + (customer \<times> store)) \<times> bool" where
  "save_in_atomic err st nm em ph =
     (case Customer_save err st nm em ph of
        Inl e \<Rightarrow> (Inl e, True)
      | Inr r \<Rightarrow> (Inr r, False))"

text \<open>
  The body of the \<open>try\<close> block, up to \<open>obj.save()\<close>: what it returns or raises,
  and whether it leaves the connection marked.
\<close>

definition bulk_item ::
  "save_error \<Rightarrow> store \<Rightarrow> CustomerInput option \<Rightarrow> (exn + (customer \<times> store)) \<times> bool" where
  "bulk_item err st c_opt =
     (case c_opt of
        None \<Rightarrow> (Inl (OtherException NoneType_name_msg), False)
      | Some c \<Rightarrow>
          if ci_name c = [] \<or> ci_email c = []
          then (Inl (GraphQLError ''Both name and email are required.''), False)
          else (case validate_email_unique st (ci_email c) of
                  Some e \<Rightarrow> (Inl e, False)
                | None \<Rightarrow>
                    (case validate_phone (ci_phone c) of
                       Some e \<Rightarrow> (Inl e, False)
                     | None \<Rightarrow>
                         save_in_atomic err st (strip (ci_name c)) (strip (ci_email c))
                           (phone_or_empty (ci_phone c)))))"

text \<open>\<open>getattr(c, "email", None)\<close>\<close>

definition getattr_email :: "CustomerInput option \<Rightarrow> string option" where
  "getattr_email c_opt = (case c_opt of None \<Rightarrow> None | Some c \<Rightarrow> Some (ci_email c))"

text \<open>
  The message of the \<open>TransactionManagementError\<close> that a query raises on a
  connection marked as needing a rollback.
\<close>

definition TransactionManagementError_msg :: string where
  "TransactionManagementError_msg =
     ''An error occurred in the current transaction. You can'' @ [CHR 0x27]
     @ ''t execute queries until the end of the '' @ [CHR 0x27] @ ''atomic'' @ [CHR 0x27]
     @ '' block.''"

text \<open>
  Savepoints: \<open>savepoint\<close> remembers the store and \<open>savepoint_commit\<close> keeps the
  current one. \<open>savepoint_rollback\<close> goes back to the remembered store; it runs a
  query, so on a marked connection it raises.
\<close>

definition savepoint :: "store \<Rightarrow> store" where
  "savepoint st = st"

definition savepoint_commit :: "store \<Rightarrow> store \<Rightarrow> store" where
  "savepoint_commit spid st = st"

definition savepoint_rollback :: "bool \<Rightarrow> store \<Rightarrow> store \<Rightarrow> exn + store" where
  "savepoint_rollback needs_rollback spid st =
     (if needs_rollback then Inl (OtherException TransactionManagementError_msg)
      else Inr spid)"

text \<open>
  The loop \<open>for idx, c in enumerate(customers)\<close> with its two handlers; the state
  is \<open>(created_objs, errors, store)\<close>. An exception that a handler raises leaves the
  loop.
\<close>

fun bulk_loop ::
  "save_error \<Rightarrow> nat \<Rightarrow> CustomerInput option list
   \<Rightarrow> customer list \<times> BulkErrorType list \<times> store
   \<Rightarrow> exn + (customer list \<times> BulkErrorType list \<times> store)" where
  "bulk_loop err idx [] acc = Inr acc"
| "bulk_loop err idx (c # cs) (created_objs, errors, st) =
     (let spid = savepoint st in
      case bulk_item err st c of
        (Inr (obj, st'), needs_rollback) \<Rightarrow>
          bulk_loop err (Suc idx) cs (created_objs @ [obj], errors, savepoint_commit spid st')
      | (Inl (GraphQLError m), needs_rollback) \<Rightarrow>
          (case savepoint_rollback needs_rollback spid st of
             Inl e \<Rightarrow> Inl e
           | Inr st1 \<Rightarrow>
               bulk_loop err (Suc idx) cs
                 (created_objs,
                  errors @ [\<lparr>be_index = idx, be_email = getattr_email c, be_message = m\<rparr>],
                  st1))
      | (Inl (OtherException m), needs_rollback) \<Rightarrow>
          (case savepoint_rollback needs_rollback spid st of
             Inl e \<Rightarrow> Inl e
           | Inr st1 \<Rightarrow>
               bulk_loop err (Suc idx) cs
                 (created_objs,
                  errors @ [\<lparr>be_index = idx, be_email = getattr_email c,
                             be_message = ''Unexpected error: '' @ m\<rparr>],
                  st1)))"

record bulk_result =
  created :: "customer list"
  errors :: "BulkErrorType list"

text \<open>
  \<open>BulkCreateCustomers.mutate\<close>: the loop inside \<open>transaction.atomic()\<close>. An
  exception that leaves the loop leaves the call, and the store goes back to what it
  was on entry.
\<close>

definition BulkCreateCustomers_mutate ::
  "save_error \<Rightarrow> store \<Rightarrow> CustomerInput option list \<Rightarrow> (exn + bulk_result) \<times> store" where
  "BulkCreateCustomers_mutate err st customers_arg =
     (case bulk_loop err 0 customers_arg ([], [], st) of
        Inl e \<Rightarrow> (Inl e, st)
      | Inr (created_objs, errs, st') \<Rightarrow>
          (Inr \<lparr>created = created_objs, errors = errs\<rparr>, st'))"

section \<open>Decimal arithmetic\<close>

text \<open>
  The sum of two decimals before rounding: its exponent is the smaller of the two
  exponents.
\<close>

fun dec_add_exact :: "decimal \<Rightarrow> decimal \<Rightarrow> decimal" where
  "dec_add_exact (Decimal c1 e1) (Decimal c2 e2) =
     (let e = min e1 e2 in Decimal (c1 * 10 ^ nat (e1 - e) + c2 * 10 ^ nat (e2 - e)) e)"

text \<open>
  The default context has a precision of 28 digits and rounds half to even.
  \<open>excess n\<close> is the number of digits of \<open>n\<close> beyond the precision.
\<close>

definition prec :: nat where
  "prec = 28"

function excess :: "int \<Rightarrow> nat" where
  "excess n = (if n < 10 ^ prec then 0 else Suc (excess (n div 10)))"
  by pat_completeness auto
termination
  by (relation "measure nat") (auto simp: prec_def)

text \<open>The quotient of \<open>c\<close> by \<open>d\<close>, rounded half to even.\<close>

definition round_half_even :: "int \<Rightarrow> int \<Rightarrow> int" where
  "round_half_even c d =
     (let q = c div d; r = c mod d
      in if 2 * r < d then q
         else if d < 2 * r then q + 1
         else if even q then q else q + 1)"

text \<open>
  The rounding of a result to the precision of the context: the digits beyond the
  precision are dropped, and a coefficient that the rounding carries to one digit more
  loses its last zero.
\<close>

fun dec_fix :: "decimal \<Rightarrow> decimal" where
  "dec_fix (Decimal c e) =
     (let k = excess \<bar>c\<bar> in
      if k = 0 then Decimal c e
      else (let q = round_half_even c (10 ^ k) in
            if \<bar>q\<bar> = 10 ^ prec then Decimal (q div 10) (e + int k + 1)
            else Decimal q (e + int k)))"

text \<open>\<open>a + b\<close>\<close>

definition dec_add :: "decimal \<Rightarrow> decimal \<Rightarrow> decimal" where
  "dec_add a b = dec_fix (dec_add_exact a b)"

text \<open>\<open>d <= 0\<close>\<close>

fun dec_le_zero :: "decimal \<Rightarrow> bool" where
  "dec_le_zero (Decimal c e) = (c \<le> 0)"

text \<open>The number a \<open>Decimal\<close> denotes.\<close>

fun dec_val :: "decimal \<Rightarrow> rat" where
  "dec_val (Decimal c e) =
     (if 0 \<le> e then of_int c * 10 ^ nat e else of_int c / 10 ^ nat (- e))"

text \<open>\<open>sum(xs, start)\<close>\<close>

definition py_sum :: "decimal list \<Rightarrow> decimal \<Rightarrow> decimal" where
  "py_sum xs start = foldl dec_add start xs"

section \<open>validate_price_and_stock\<close>

text \<open>
  The values of Python's \<open>Decimal\<close> type: the finite ones, the two infinities and
  NaN. A price column of the store holds a finite one.
\<close>

datatype py_decimal = Finite decimal | PosInfinity | NegInfinity | NaN

text \<open>
  The price argument is a \<open>Decimal\<close> or any other value. \<open>Decimal(str(price))\<close>
  gives a \<open>Decimal\<close> back as it is; for another value \<open>v\<close> the conversion is the
  parameter \<open>conv\<close>, with \<open>conv v = None\<close> when it raises.
\<close>

datatype 'a price_arg = PDecimal py_decimal | POther 'a

fun Decimal_str :: "('a \<Rightarrow> py_decimal option) \<Rightarrow> 'a price_arg \<Rightarrow> py_decimal option" where
  "Decimal_str conv (PDecimal d) = Some d"
| "Decimal_str conv (POther v) = conv v"

text \<open>\<open>str(e)\<close> of the \<open>decimal.InvalidOperation\<close> that an ordering of NaN raises.\<close>

definition InvalidOperation_msg :: string where
  "InvalidOperation_msg =
     ''[<class '' @ [CHR 0x27] @ ''decimal.InvalidOperation'' @ [CHR 0x27] @ ''>]''"

text \<open>\<open>price <= 0\<close>: the truth value, or the exception on NaN.\<close>

fun le_zero :: "py_decimal \<Rightarrow> exn + bool" where
  "le_zero (Finite d) = Inr (dec_le_zero d)"
| "le_zero PosInfinity = Inr False"
| "le_zero NegInfinity = Inr True"
| "le_zero NaN = Inl (OtherException InvalidOperation_msg)"

definition validate_price_and_stock ::
  "('a \<Rightarrow> py_decimal option) \<Rightarrow> 'a price_arg \<Rightarrow> int option \<Rightarrow> exn + (py_decimal \<times> int)" where
  "validate_price_and_stock conv price stock =
     (case Decimal_str conv price of
        None \<Rightarrow> Inl (GraphQLError ''Price must be a valid decimal number.'')
      | Some p \<Rightarrow>
          (case le_zero p of
             Inl e \<Rightarrow> Inl e
           | Inr True \<Rightarrow> Inl (GraphQLError ''Price must be positive.'')
           | Inr False \<Rightarrow>
               if (case stock of None \<Rightarrow> False | Some s \<Rightarrow> s < 0)
               then Inl (GraphQLError ''Stock cannot be negative.'')
               else Inr (p, (case stock of None \<Rightarrow> 0 | Some s \<Rightarrow> s))))"

text \<open>A price above zero.\<close>

fun is_positive :: "py_decimal \<Rightarrow> bool" where
  "is_positive (Finite d) = (0 < dec_val d)"
| "is_positive PosInfinity = True"
| "is_positive NegInfinity = False"
| "is_positive NaN = False"

section \<open>CreateOrder\<close>

text \<open>\<open>str\<close> of an integer and of a list of integers, as an f-string prints them.\<close>

fun digits :: "nat \<Rightarrow> string" where
  "digits n = (if n < 10 then [''0123456789'' ! n] else digits (n div 10) @ [''0123456789'' ! (n mod 10)])"

definition str_int :: "int \<Rightarrow> string" where
  "str_int i = (if i < 0 then ''-'' @ digits (nat (- i)) else digits (nat i))"

fun join :: "string \<Rightarrow> string list \<Rightarrow> string" where
  "join sep [] = []"
| "join sep [x] = x"
| "join sep (x # y # ys) = x @ sep @ join sep (y # ys)"

definition str_int_list :: "int list \<Rightarrow> string" where
  "str_int_list xs = ''['' @ join '', '' (map str_int xs) @ '']''"

text \<open>
  What the call takes from outside the source: \<open>py_int\<close> is \<open>int(x)\<close> on an id
  (\<open>None\<close> when it raises \<open>TypeError\<close> or \<open>ValueError\<close>), \<open>now\<close> the clock, and
  \<open>create_error\<close>, \<open>set_error\<close> the messages of the exceptions that the two
  writes raise (\<open>None\<close> when the write is done).
\<close>

record 'id order_env =
  py_int :: "'id \<Rightarrow> int option"
  now :: nat
  create_error :: "store \<Rightarrow> order \<Rightarrow> string option"
  set_error :: "store \<Rightarrow> order \<Rightarrow> product list \<Rightarrow> string option"

record create_order_result =
  co_ok :: bool
  co_order :: order
  co_message :: string

text \<open>\<open>Order.objects.create(...)\<close>: the store it leaves and the row or the exception.\<close>

definition Order_objects_create ::
  "'id order_env \<Rightarrow> store \<Rightarrow> customer \<Rightarrow> nat \<Rightarrow> decimal \<Rightarrow> (exn + order) \<times> store" where
  "Order_objects_create env st customer order_date total_amount =
     (let row = \<lparr>o_pk = next_pk (map o_pk (orders st)), o_customer = c_pk customer,
                 o_order_date = order_date, o_total_amount = total_amount\<rparr>
      in case create_error env st row of
           Some m \<Rightarrow> (Inl (OtherException m), st)
         | None \<Rightarrow> (Inr row, st\<lparr>orders := orders st @ [row]\<rparr>))"

text \<open>\<open>order.products.set(products)\<close>: the links of the order become the given products.\<close>

definition products_set ::
  "'id order_env \<Rightarrow> store \<Rightarrow> order \<Rightarrow> product list \<Rightarrow> (exn + unit) \<times> store" where
  "products_set env st ord ps =
     (case set_error env st ord ps of
        Some m \<Rightarrow> (Inl (OtherException m), st)
      | None \<Rightarrow>
          (Inr (),
           st\<lparr>order_products :=
                 filter (\<lambda>l. fst l \<noteq> o_pk ord) (order_products st)
                 @ map (\<lambda>p. (o_pk ord, p_pk p)) ps\<rparr>))"

text \<open>
  \<open>with transaction.atomic():\<close> the block runs on the store; when it raises, the
  store goes back to what it was on entry and the exception goes on.
\<close>

definition atomic :: "(store \<Rightarrow> (exn + 'a) \<times> store) \<Rightarrow> store \<Rightarrow> (exn + 'a) \<times> store" where
  "atomic block st =
     (case block st of
        (Inl e, dirty) \<Rightarrow> (Inl e, st)
      | (Inr x, st') \<Rightarrow> (Inr x, st'))"

text \<open>The body of the \<open>with\<close> block.\<close>

definition order_block ::
  "'id order_env \<Rightarrow> customer \<Rightarrow> nat option \<Rightarrow> decimal \<Rightarrow> product list \<Rightarrow> store
   \<Rightarrow> (exn + order) \<times> store" where
  "order_block env customer order_date total_amount ps st =
     (case Order_objects_create env st customer
             (case order_date of None \<Rightarrow> now env | Some d \<Rightarrow> d) total_amount of
        (Inl e, st1) \<Rightarrow> (Inl e, st1)
      | (Inr ord, st1) \<Rightarrow>
          (case products_set env st1 ord ps of
             (Inl e, st2) \<Rightarrow> (Inl e, st2)
           | (Inr u, st2) \<Rightarrow> (Inr ord, st2)))"

text \<open>
  \<open>list(Product.objects.filter(pk__in=product_pks))\<close>: the rows whose key is in the
  list, in table order. The keys are bound as 64-bit integers (as SQLite does): a key
  outside that range makes the query raise \<open>OverflowError\<close>.
\<close>

definition fits_int64 :: "int \<Rightarrow> bool" where
  "fits_int64 k = (- (2 ^ 63) \<le> k \<and> k < 2 ^ 63)"

definition OverflowError_msg :: string where
  "OverflowError_msg = ''Python int too large to convert to SQLite INTEGER''"

definition Product_filter_pk_in :: "store \<Rightarrow> int list \<Rightarrow> exn + product list" where
  "Product_filter_pk_in st product_pks =
     (if list_all fits_int64 product_pks
      then Inr (filter (\<lambda>p. p_pk p \<in> set product_pks) (products st))
      else Inl (OtherException OverflowError_msg))"

definition CreateOrder_mutate ::
  "'id order_env \<Rightarrow> store \<Rightarrow> 'id \<Rightarrow> 'id list \<Rightarrow> nat option
   \<Rightarrow> (exn + create_order_result) \<times> store" where
  "CreateOrder_mutate env st customer_id product_ids order_date =
     (if product_ids = [] then (Inl (GraphQLError ''At least one product must be selected.''), st)
      else case py_int env customer_id of
        None \<Rightarrow> (Inl (GraphQLError ''Invalid customer ID.''), st)
      | Some customer_pk \<Rightarrow>
          (case find (\<lambda>c. c_pk c = customer_pk) (customers st) of
             None \<Rightarrow> (Inl (GraphQLError ''Customer not found.''), st)
           | Some customer \<Rightarrow>
               (case those (map (py_int env) product_ids) of
                  None \<Rightarrow> (Inl (GraphQLError ''All product IDs must be integers.''), st)
                | Some product_pks \<Rightarrow>
                    (case Product_filter_pk_in st product_pks of
                       Inl e \<Rightarrow> (Inl e, st)
                     | Inr ps \<Rightarrow>
                         (let missing = set product_pks - set (map p_pk ps)
                          in if missing \<noteq> {}
                             then (Inl (GraphQLError (''Invalid product ID(s): ''
                                           @ str_int_list (sorted_list_of_set missing))), st)
                             else
                               (let total_amount = py_sum (map p_price ps) (Decimal 0 (- 2))
                                in case atomic (order_block env customer order_date
                                                  total_amount ps) st of
                                     (Inl e, st') \<Rightarrow> (Inl e, st')
                                   | (Inr ord, st') \<Rightarrow>
                                       (Inr \<lparr>co_ok = True, co_order = ord,
                                             co_message = ''Order created.''\<rparr>, st')))))))"

section \<open>Notions used in the statements\<close>

text \<open>What a handler of the bulk loop appends for the exception \<open>e\<close> of item \<open>idx\<close>.\<close>

definition bulk_error :: "nat \<Rightarrow> CustomerInput option \<Rightarrow> exn \<Rightarrow> BulkErrorType" where
  "bulk_error idx c e =
     (case e of
        GraphQLError m \<Rightarrow> \<lparr>be_index = idx, be_email = getattr_email c, be_message = m\<rparr>
      | OtherException m \<Rightarrow>
          \<lparr>be_index = idx, be_email = getattr_email c, be_message = ''Unexpected error: '' @ m\<rparr>)"

text \<open>A customer row holds the trimmed name and email and the phone of an input.\<close>

definition built_from :: "customer \<Rightarrow> CustomerInput option \<Rightarrow> bool" where
  "built_from obj c_opt =
     (case c_opt of
        None \<Rightarrow> False
      | Some c \<Rightarrow> c_name obj = strip (ci_name c) \<and> c_email obj = strip (ci_email c)
                  \<and> c_phone obj = phone_or_empty (ci_phone c))"

text \<open>No two customer rows have the same email ignoring case.\<close>

definition emails_unique :: "store \<Rightarrow> bool" where
  "emails_unique st = distinct (map (\<lambda>c. map to_lower (c_email c)) (customers st))"

text \<open>The products that the association table links to an order.\<close>

definition linked_products :: "store \<Rightarrow> order \<Rightarrow> product list" where
  "linked_products st ord =
     filter (\<lambda>p. (o_pk ord, p_pk p) \<in> set (order_products st)) (products st)"

text \<open>A column with a unique index on the exact email, as a table could declare it.\<close>

definition unique_email_column :: save_error where
  "unique_email_column st row =
     (if c_email row \<in> set (map c_email (customers st))
      then Some ''UNIQUE constraint failed: crm_customer.email'' else None)"

definition empty_store :: store where
  "empty_store = \<lparr>customers = [], products = [], orders = [], order_products = []\<rparr>"

text \<open>The batch of three inputs that the specification works through.\<close>

definition spec_batch :: "CustomerInput option list" where
  "spec_batch =
     [Some \<lparr>ci_name = ''A'', ci_email = ''a@x.com'', ci_phone = None\<rparr>,
      Some \<lparr>ci_name = [], ci_email = ''b@x.com'', ci_phone = None\<rparr>,
      Some \<lparr>ci_name = ''C'', ci_email = ''a@x.com'', ci_phone = None\<rparr>]"

text \<open>A batch whose first element is null.\<close>

definition batch_with_null :: "CustomerInput option list" where
  "batch_with_null =
     [None, Some \<lparr>ci_name = ''A'', ci_email = ''a@x.com'', ci_phone = None\<rparr>]"

text \<open>
  A store that already holds the email, a batch of two inputs with it, and a batch of
  two inputs with one email whose second input has no name.
\<close>

definition store_with_a :: store where
  "store_with_a =
     \<lparr>customers = [\<lparr>c_pk = 1, c_name = ''Z'', c_email = ''a@x.com'', c_phone = []\<rparr>],
      products = [], orders = [], order_products = []\<rparr>"

definition same_email_batch :: "CustomerInput option list" where
  "same_email_batch =
     [Some \<lparr>ci_name = ''A'', ci_email = ''a@x.com'', ci_phone = None\<rparr>,
      Some \<lparr>ci_name = ''B'', ci_email = ''a@x.com'', ci_phone = None\<rparr>]"

definition nameless_second_batch :: "CustomerInput option list" where
  "nameless_second_batch =
     [Some \<lparr>ci_name = ''A'', ci_email = ''a@x.com'', ci_phone = None\<rparr>,
      Some \<lparr>ci_name = [], ci_email = ''a@x.com'', ci_phone = None\<rparr>]"

definition bad_phone_first_batch :: "CustomerInput option list" where
  "bad_phone_first_batch =
     [Some \<lparr>ci_name = ''A'', ci_email = ''a@x.com'', ci_phone = Some ''12345''\<rparr>,
      Some \<lparr>ci_name = ''B'', ci_email = ''a@x.com'', ci_phone = None\<rparr>]"

text \<open>
  A batch of three valid inputs with three emails, and a database that fails to write
  the row named \<open>B\<close>.
\<close>

definition three_valid_batch :: "CustomerInput option list" where
  "three_valid_batch =
     [Some \<lparr>ci_name = ''A'', ci_email = ''a@x.com'', ci_phone = None\<rparr>,
      Some \<lparr>ci_name = ''B'', ci_email = ''b@x.com'', ci_phone = None\<rparr>,
      Some \<lparr>ci_name = ''C'', ci_email = ''c@x.com'', ci_phone = None\<rparr>]"

definition faulty_save :: save_error where
  "faulty_save st row = (if c_name row = ''B'' then Some ''storage fault'' else None)"

text \<open>A batch of two inputs with the same email, written with a leading space.\<close>

definition padded_batch :: "CustomerInput option list" where
  "padded_batch =
     [Some \<lparr>ci_name = ''A'', ci_email = '' a@x.com'', ci_phone = None\<rparr>,
      Some \<lparr>ci_name = ''B'', ci_email = '' a@x.com'', ci_phone = None\<rparr>]"

text \<open>
  A store with one customer and two products, an environment whose writes succeed
  and one whose assignment of the product links fails.
\<close>

definition shop :: store where
  "shop =
     \<lparr>customers = [\<lparr>c_pk = 1, c_name = ''Alice'', c_email = ''alice@example.com'',
                    c_phone = ''+1234567890''\<rparr>],
      products = [\<lparr>p_pk = 1, p_name = ''Laptop'', p_price = Decimal 99999 (- 2), p_stock = 10\<rparr>,
                  \<lparr>p_pk = 2, p_name = ''Phone'', p_price = Decimal 49999 (- 2), p_stock = 25\<rparr>],
      orders = [], order_products = []\<rparr>"

definition plain_env :: "int order_env" where
  "plain_env = \<lparr>py_int = Some, now = 7, create_error = (\<lambda>st row. None),
                 set_error = (\<lambda>st ord ps. None)\<rparr>"

definition set_fails_env :: "int order_env" where
  "set_fails_env = \<lparr>py_int = Some, now = 7, create_error = (\<lambda>st row. None),
                 set_error = (\<lambda>st ord ps. Some ''link table unavailable'')\<rparr>"

text \<open>An environment whose ids are strings, of which it reads two as integers.\<close>

definition str_env :: "string order_env" where
  "str_env = \<lparr>py_int = (\<lambda>s. if s = ''1'' then Some 1 else if s = ''999'' then Some 999 else None),
               now = 7, create_error = (\<lambda>st row. None), set_error = (\<lambda>st ord ps. None)\<rparr>"

text \<open>
  The sum of a list of decimals without rounding, and the lists whose sum stays within
  the precision of the context: the sum of the absolute values, started from
  \<open>Decimal("0.00")\<close> and taken without rounding, has a coefficient below \<open>10 ^ prec\<close>.
\<close>

definition py_sum_exact :: "decimal list \<Rightarrow> decimal \<Rightarrow> decimal" where
  "py_sum_exact xs start = foldl dec_add_exact start xs"

fun abs_dec :: "decimal \<Rightarrow> decimal" where
  "abs_dec (Decimal c e) = Decimal \<bar>c\<bar> e"

fun coefficient :: "decimal \<Rightarrow> int" where
  "coefficient (Decimal c e) = c"

fun exponent :: "decimal \<Rightarrow> int" where
  "exponent (Decimal c e) = e"

definition within_precision :: "decimal list \<Rightarrow> bool" where
  "within_precision xs =
     (coefficient (py_sum_exact (map abs_dec xs) (Decimal 0 (- 2))) < 10 ^ prec)"

text \<open>The products that a list of keys selects, and the order row the call writes.\<close>

definition found :: "store \<Rightarrow> int list \<Rightarrow> product list" where
  "found st pks = filter (\<lambda>p. p_pk p \<in> set pks) (products st)"

definition new_order :: "'id order_env \<Rightarrow> store \<Rightarrow> customer \<Rightarrow> nat option \<Rightarrow> int list \<Rightarrow> order" where
  "new_order env st c od pks =
     \<lparr>o_pk = next_pk (map o_pk (orders st)), o_customer = c_pk c,
      o_order_date = (case od of None \<Rightarrow> now env | Some d \<Rightarrow> d),
      o_total_amount = py_sum (map p_price (found st pks)) (Decimal 0 (- 2))\<rparr>"

text \<open>
  The order that the call writes for both products of the shop, the store it leaves,
  and a conversion that reads the one price of the specification's example.
\<close>

definition shop_order :: order where
  "shop_order = \<lparr>o_pk = 1, o_customer = 1, o_order_date = 7,
                  o_total_amount = Decimal 149998 (- 2)\<rparr>"

definition shop_after :: store where
  "shop_after = shop\<lparr>orders := [shop_order], order_products := [(1, 1), (1, 2)]\<rparr>"

definition shop_result :: create_order_result where
  "shop_result = \<lparr>co_ok = True, co_order = shop_order, co_message = ''Order created.''\<rparr>"

definition str_conv :: "string \<Rightarrow> py_decimal option" where
  "str_conv s = (if s = ''19.99'' then Some (Finite (Decimal 1999 (- 2))) else None)"

section \<open>The bulk loop, item by item\<close>

lemma be_index_bulk_error [simp]: "be_index (bulk_error idx c e) = idx"
  by (cases e) (simp_all add: bulk_error_def)

lemma savepoint_rollback_clean [simp]: "savepoint_rollback False spid st = Inr spid"
  by (simp add: savepoint_rollback_def)

lemma savepoint_rollback_marked [simp]:
  "savepoint_rollback True spid st = Inl (OtherException TransactionManagementError_msg)"
  by (simp add: savepoint_rollback_def)

lemma save_in_atomic_flag: "save_in_atomic err st nm em ph = (r, True) \<Longrightarrow> isl r"
  by (cases "Customer_save err st nm em ph") (auto simp: save_in_atomic_def)

lemma bulk_item_flag:
  "bulk_item err st c = (r, needs_rollback) \<Longrightarrow> needs_rollback \<Longrightarrow> isl r"
  by (auto simp: bulk_item_def split: option.splits if_splits dest: save_in_atomic_flag)

text \<open>One step of the loop, for each way the body of the \<open>try\<close> block can end.\<close>

lemma bulk_loop_step_ok:
  assumes "bulk_item err st c = (Inr (obj, st1), nr)"
  shows "bulk_loop err idx (c # cs) (cr, er, st) = bulk_loop err (Suc idx) cs (cr @ [obj], er, st1)"
  using assms by (simp add: savepoint_def savepoint_commit_def)

lemma bulk_loop_step_fail:
  assumes "bulk_item err st c = (Inl e, False)"
  shows "bulk_loop err idx (c # cs) (cr, er, st)
      = bulk_loop err (Suc idx) cs (cr, er @ [bulk_error idx c e], st)"
  using assms by (cases e) (simp_all add: savepoint_def bulk_error_def)

lemma bulk_loop_step_escape:
  assumes "bulk_item err st c = (Inl e, True)"
  shows "bulk_loop err idx (c # cs) (cr, er, st) = Inl (OtherException TransactionManagementError_msg)"
  using assms by (cases e) (simp_all add: savepoint_def)

declare bulk_loop.simps(2) [simp del]

lemma bulk_item_cases:
  obtains (ok) obj st1 where "bulk_item err st c = (Inr (obj, st1), False)"
  | (fail) e where "bulk_item err st c = (Inl e, False)"
  | (escape) e where "bulk_item err st c = (Inl e, True)"
proof (cases "bulk_item err st c")
  case (Pair r nr)
  show ?thesis
  proof (cases r)
    case (Inl e)
    with Pair fail escape show ?thesis by (cases nr) auto
  next
    case (Inr p)
    with Pair bulk_item_flag [of err st c r nr] have "nr = False" by auto
    with Pair Inr ok show ?thesis by (cases p) auto
  qed
qed

lemma bulk_loop_acc:
  "bulk_loop err idx cs (cr, er, st) =
     (case bulk_loop err idx cs ([], [], st) of
        Inl e \<Rightarrow> Inl e
      | Inr (cr', er', st') \<Rightarrow> Inr (cr @ cr', er @ er', st'))"
proof (induction cs arbitrary: idx cr er st)
  case Nil
  show ?case by simp
next
  case (Cons c cs)
  show ?case
  proof (cases rule: bulk_item_cases [of err st c])
    case (ok obj st1)
    show ?thesis
      using Cons.IH [of "Suc idx" "cr @ [obj]" er st1] Cons.IH [of "Suc idx" "[obj]" "[]" st1]
      by (simp add: bulk_loop_step_ok [OF ok] split: sum.splits)
  next
    case (fail e)
    show ?thesis
      using Cons.IH [of "Suc idx" cr "er @ [bulk_error idx c e]" st]
        Cons.IH [of "Suc idx" "[]" "[bulk_error idx c e]" st]
      by (simp add: bulk_loop_step_fail [OF fail] split: sum.splits)
  next
    case (escape e)
    show ?thesis by (simp add: bulk_loop_step_escape [OF escape])
  qed
qed

lemma bulk_loop_Cons_ok:
  assumes "bulk_item err st c = (Inr (obj, st1), nr)"
    and "bulk_loop err (Suc idx) cs ([], [], st1) = Inr (cr, er, st')"
  shows "bulk_loop err idx (c # cs) ([], [], st) = Inr (obj # cr, er, st')"
  using assms(2) bulk_loop_acc [of err "Suc idx" cs "[obj]" "[]" st1]
  by (simp add: bulk_loop_step_ok [OF assms(1)])

lemma bulk_loop_Cons_fail:
  assumes "bulk_item err st c = (Inl e, False)"
    and "bulk_loop err (Suc idx) cs ([], [], st) = Inr (cr, er, st')"
  shows "bulk_loop err idx (c # cs) ([], [], st) = Inr (cr, bulk_error idx c e # er, st')"
  using assms(2) bulk_loop_acc [of err "Suc idx" cs "[]" "[bulk_error idx c e]" st]
  by (simp add: bulk_loop_step_fail [OF assms(1)])

text \<open>A loop that returns has taken one of the two steps that go on.\<close>

lemma bulk_loop_ConsE:
  assumes "bulk_loop err idx (c # cs) ([], [], st) = Inr (cr, er, st')"
  obtains (ok) obj st1 cr1 where "bulk_item err st c = (Inr (obj, st1), False)"
      "bulk_loop err (Suc idx) cs ([], [], st1) = Inr (cr1, er, st')"
      "cr = obj # cr1"
  | (fail) e er1 where "bulk_item err st c = (Inl e, False)"
      "bulk_loop err (Suc idx) cs ([], [], st) = Inr (cr, er1, st')"
      "er = bulk_error idx c e # er1"
proof (cases rule: bulk_item_cases [of err st c])
  case (ok obj st1)
  have "bulk_loop err idx (c # cs) ([], [], st)
      = (case bulk_loop err (Suc idx) cs ([], [], st1) of
           Inl e \<Rightarrow> Inl e
         | Inr (cr', er', st') \<Rightarrow> Inr (obj # cr', er', st'))"
    using bulk_loop_acc [of err "Suc idx" cs "[obj]" "[]" st1]
    by (auto simp: bulk_loop_step_ok [OF ok] split: sum.splits)
  with assms obtain cr1 where "bulk_loop err (Suc idx) cs ([], [], st1) = Inr (cr1, er, st')"
    "cr = obj # cr1"
    by (auto split: sum.splits)
  with ok that(1) show thesis by blast
next
  case (fail e)
  have "bulk_loop err idx (c # cs) ([], [], st)
      = (case bulk_loop err (Suc idx) cs ([], [], st) of
           Inl e \<Rightarrow> Inl e
         | Inr (cr', er', st') \<Rightarrow> Inr (cr', bulk_error idx c e # er', st'))"
    using bulk_loop_acc [of err "Suc idx" cs "[]" "[bulk_error idx c e]" st]
    by (auto simp: bulk_loop_step_fail [OF fail] split: sum.splits)
  with assms obtain er1 where "bulk_loop err (Suc idx) cs ([], [], st) = Inr (cr, er1, st')"
    "er = bulk_error idx c e # er1"
    by (auto split: sum.splits)
  with fail that(2) show thesis by blast
next
  case (escape e)
  with assms show thesis by (simp add: bulk_loop_step_escape [OF escape])
qed

lemma bulk_loop_length:
  "bulk_loop err idx cs ([], [], st) = Inr (cr, er, st') \<Longrightarrow> length cr + length er = length cs"
proof (induction cs arbitrary: idx st cr er)
  case Nil
  then show ?case by simp
next
  case (Cons c cs)
  from Cons.prems show ?case
  proof (cases rule: bulk_loop_ConsE)
    case (ok obj st1 cr1)
    with Cons.IH [OF ok(2)] show ?thesis by simp
  next
    case (fail e er1)
    with Cons.IH [OF fail(2)] show ?thesis by simp
  qed
qed

lemma bulk_loop_index_range:
  "bulk_loop err idx cs ([], [], st) = Inr (cr, er, st') \<Longrightarrow>
     set (map be_index er) \<subseteq> {idx..<idx + length cs}"
proof (induction cs arbitrary: idx st cr er)
  case Nil
  then show ?case by simp
next
  case (Cons c cs)
  from Cons.prems show ?case
  proof (cases rule: bulk_loop_ConsE)
    case (ok obj st1 cr1)
    with Cons.IH [OF ok(2)] show ?thesis by auto
  next
    case (fail e er1)
    with Cons.IH [OF fail(2)] show ?thesis by auto
  qed
qed

lemma bulk_loop_index_sorted:
  "bulk_loop err idx cs ([], [], st) = Inr (cr, er, st') \<Longrightarrow> sorted_wrt (<) (map be_index er)"
proof (induction cs arbitrary: idx st cr er)
  case Nil
  then show ?case by simp
next
  case (Cons c cs)
  from Cons.prems show ?case
  proof (cases rule: bulk_loop_ConsE)
    case (ok obj st1 cr1)
    with Cons.IH [OF ok(2)] show ?thesis by simp
  next
    case (fail e er1)
    with Cons.IH [OF fail(2)] bulk_loop_index_range [OF fail(2)]
    show ?thesis by auto
  qed
qed

lemma bulk_item_built_from: "bulk_item err st c = (Inr (obj, st1), nr) \<Longrightarrow> built_from obj c"
  by (auto simp: bulk_item_def save_in_atomic_def built_from_def Customer_save_def Let_def
      split: option.splits if_splits)

lemma bulk_loop_created:
  "bulk_loop err idx cs ([], [], st) = Inr (cr, er, st') \<Longrightarrow>
     list_all2 built_from cr
       (map (\<lambda>i. cs ! (i - idx)) [i \<leftarrow> [idx..<idx + length cs]. i \<notin> set (map be_index er)])"
proof (induction cs arbitrary: idx st cr er)
  case Nil
  then show ?case by simp
next
  case (Cons c cs)
  let ?tl = "[Suc idx..<Suc idx + length cs]"
  have shift: "map (\<lambda>i. (c # cs) ! (i - idx)) (filter P ?tl)
      = map (\<lambda>i. cs ! (i - Suc idx)) (filter P ?tl)" for P
  proof (rule map_cong)
    fix i assume "i \<in> set (filter P ?tl)"
    then have "i - idx = Suc (i - Suc idx)" by auto
    then show "(c # cs) ! (i - idx) = cs ! (i - Suc idx)" by simp
  qed simp
  have upt: "[idx..<idx + length (c # cs)] = idx # ?tl"
  proof -
    have "idx < idx + length (c # cs)" by simp
    then have "[idx..<idx + length (c # cs)] = idx # [Suc idx..<idx + length (c # cs)]"
      by (rule upt_conv_Cons)
    then show ?thesis by (simp del: upt_Suc)
  qed
  from Cons.prems show ?case
  proof (cases rule: bulk_loop_ConsE)
    case (ok obj st1 cr1)
    have notin: "idx \<notin> set (map be_index er)"
      using bulk_loop_index_range [OF ok(2)] by auto
    have "[i \<leftarrow> idx # ?tl. i \<notin> set (map be_index er)]
        = idx # [i \<leftarrow> ?tl. i \<notin> set (map be_index er)]"
      using notin by simp
    then have "map (\<lambda>i. (c # cs) ! (i - idx)) [i \<leftarrow> idx # ?tl. i \<notin> set (map be_index er)]
        = c # map (\<lambda>i. cs ! (i - Suc idx)) [i \<leftarrow> ?tl. i \<notin> set (map be_index er)]"
      using shift [of "\<lambda>i. i \<notin> set (map be_index er)"] by simp
    then show ?thesis
      unfolding upt ok(3)
      using Cons.IH [OF ok(2)] bulk_item_built_from [OF ok(1)] by simp
  next
    case (fail e er1)
    have "[i \<leftarrow> idx # ?tl. i \<notin> set (map be_index (bulk_error idx c e # er1))]
        = [i \<leftarrow> ?tl. i \<notin> set (map be_index (bulk_error idx c e # er1))]"
      by simp
    also have "\<dots> = [i \<leftarrow> ?tl. i \<notin> set (map be_index er1)]"
      by (rule filter_cong) auto
    finally have "map (\<lambda>i. (c # cs) ! (i - idx))
          [i \<leftarrow> idx # ?tl. i \<notin> set (map be_index (bulk_error idx c e # er1))]
        = map (\<lambda>i. cs ! (i - Suc idx)) [i \<leftarrow> ?tl. i \<notin> set (map be_index er1)]"
      using shift [of "\<lambda>i. i \<notin> set (map be_index er1)"] by simp
    then show ?thesis
      unfolding upt fail(3)
      using Cons.IH [OF fail(2)] by simp
  qed
qed

lemma bulk_item_ok_row:
  assumes "bulk_item err st (Some a) = (Inr (obj, s), nr)"
  shows "c_email obj = strip (ci_email a)" "c_name obj = strip (ci_name a)"
    "customers s = customers st @ [obj]"
  using assms
  by (auto simp: bulk_item_def save_in_atomic_def Customer_save_def Let_def
      split: option.splits if_splits)

lemma bulk_item_ok_store:
  assumes "bulk_item err st c = (Inr (obj, s), nr)"
  shows "customers s = customers st @ [obj]"
  using assms
  by (auto simp: bulk_item_def save_in_atomic_def Customer_save_def Let_def
      split: option.splits if_splits)

lemma bulk_loop_customers:
  "bulk_loop err idx cs ([], [], st) = Inr (cr, er, st') \<Longrightarrow> customers st' = customers st @ cr"
proof (induction cs arbitrary: idx st cr er)
  case Nil
  then show ?case by simp
next
  case (Cons c cs)
  from Cons.prems show ?case
  proof (cases rule: bulk_loop_ConsE)
    case (ok obj st1 cr1)
    with Cons.IH [OF ok(2)] bulk_item_ok_store [OF ok(1)] show ?thesis by simp
  next
    case (fail e er1)
    with Cons.IH [OF fail(2)] show ?thesis by simp
  qed
qed

text \<open>A loop that returns on a batch has returned on each of its prefixes.\<close>

lemma bulk_loop_append_ex:
  "bulk_loop err idx (xs @ ys) ([], [], st) = Inr (cr, er, st') \<Longrightarrow>
     \<exists>cr1 er1 st1 cr2 er2.
       bulk_loop err idx xs ([], [], st) = Inr (cr1, er1, st1)
       \<and> bulk_loop err (idx + length xs) ys ([], [], st1) = Inr (cr2, er2, st')
       \<and> cr = cr1 @ cr2 \<and> er = er1 @ er2"
proof (induction xs arbitrary: idx st cr er)
  case Nil
  then show ?case by simp
next
  case (Cons c xs)
  from Cons.prems have run: "bulk_loop err idx (c # (xs @ ys)) ([], [], st) = Inr (cr, er, st')"
    by simp
  from run show ?case
  proof (cases rule: bulk_loop_ConsE)
    case (ok obj s cr0)
    from Cons.IH [OF ok(2)] obtain cr1 er1 st1 cr2 er2 where
      a: "bulk_loop err (Suc idx) xs ([], [], s) = Inr (cr1, er1, st1)"
      and b: "bulk_loop err (Suc idx + length xs) ys ([], [], st1) = Inr (cr2, er2, st')"
      and c: "cr0 = cr1 @ cr2" "er = er1 @ er2"
      by blast
    from bulk_loop_Cons_ok [OF ok(1) a] b c ok(3) show ?thesis by simp
  next
    case (fail e er0)
    from Cons.IH [OF fail(2)] obtain cr1 er1 st1 cr2 er2 where
      a: "bulk_loop err (Suc idx) xs ([], [], st) = Inr (cr1, er1, st1)"
      and b: "bulk_loop err (Suc idx + length xs) ys ([], [], st1) = Inr (cr2, er2, st')"
      and c: "cr = cr1 @ cr2" "er0 = er1 @ er2"
      by blast
    from bulk_loop_Cons_fail [OF fail(1) a] b c fail(3) show ?thesis by simp
  qed
qed

lemma bulk_loop_appendE:
  assumes "bulk_loop err idx (xs @ ys) ([], [], st) = Inr (cr, er, st')"
  obtains cr1 er1 st1 cr2 er2 where
    "bulk_loop err idx xs ([], [], st) = Inr (cr1, er1, st1)"
    "bulk_loop err (idx + length xs) ys ([], [], st1) = Inr (cr2, er2, st')"
    "cr = cr1 @ cr2" "er = er1 @ er2"
  using bulk_loop_append_ex [OF assms] by blast

lemma bulk_loop_at:
  assumes "bulk_loop err idx cs ([], [], st) = Inr (cr, er, st')" and "k < length cs"
  obtains crk erk stk cr2 er2 where
    "bulk_loop err idx (take k cs) ([], [], st) = Inr (crk, erk, stk)"
    "bulk_loop err (idx + k) (cs ! k # drop (Suc k) cs) ([], [], stk) = Inr (cr2, er2, st')"
    "cr = crk @ cr2" "er = erk @ er2"
proof -
  have split: "cs = take k cs @ (cs ! k # drop (Suc k) cs)"
    using assms(2) by (simp add: id_take_nth_drop [symmetric])
  have len: "length (take k cs) = k" using assms(2) by simp
  from assms(1) have "bulk_loop err idx (take k cs @ (cs ! k # drop (Suc k) cs)) ([], [], st)
      = Inr (cr, er, st')"
    using split by simp
  then obtain crk erk stk cr2 er2 where
    "bulk_loop err idx (take k cs) ([], [], st) = Inr (crk, erk, stk)"
    "bulk_loop err (idx + length (take k cs)) (cs ! k # drop (Suc k) cs) ([], [], stk)
       = Inr (cr2, er2, st')"
    "cr = crk @ cr2" "er = erk @ er2"
    by (rule bulk_loop_appendE)
  with that len show thesis by simp
qed

lemma bulk_mutate_Inr:
  "bulk_loop err 0 cs ([], [], st) = Inr (cr, er, st') \<Longrightarrow>
     BulkCreateCustomers_mutate err st cs = (Inr \<lparr>created = cr, errors = er\<rparr>, st')"
  by (simp add: BulkCreateCustomers_mutate_def)

lemma bulk_mutate_returns:
  assumes "fst (BulkCreateCustomers_mutate err st cs) = Inr r"
  obtains st' where "bulk_loop err 0 cs ([], [], st) = Inr (created r, errors r, st')"
    "snd (BulkCreateCustomers_mutate err st cs) = st'"
  using assms
  by (auto simp: BulkCreateCustomers_mutate_def split: sum.splits prod.splits)

text \<open>With a database that never fails to write, the loop returns.\<close>

lemma bulk_item_no_error: "snd (bulk_item no_error st c) = False"
  by (auto simp: bulk_item_def save_in_atomic_def Customer_save_def no_error_def Let_def
      split: option.splits)

lemma bulk_loop_no_error: "\<exists>res. bulk_loop no_error idx cs acc = Inr res"
proof (induction cs arbitrary: idx acc)
  case Nil
  show ?case by (rule exI) (rule bulk_loop.simps(1))
next
  case (Cons c cs)
  obtain cr er st where acc: "acc = (cr, er, st)" by (cases acc) auto
  show ?case
  proof (cases rule: bulk_item_cases [of no_error st c])
    case (ok obj st1)
    then show ?thesis using Cons.IH by (simp add: acc bulk_loop_step_ok [OF ok])
  next
    case (fail e)
    then show ?thesis using Cons.IH by (simp add: acc bulk_loop_step_fail [OF fail])
  next
    case (escape e)
    with bulk_item_no_error [of st c] show ?thesis by simp
  qed
qed

text \<open>Duplicates within a batch.\<close>

lemma iexact_refl: "iexact e e"
  by (simp add: iexact_def)

lemma bulk_item_duplicate:
  assumes "obj \<in> set (customers st)" "iexact (c_email obj) (ci_email b)"
    "ci_name b \<noteq> []" "ci_email b \<noteq> []"
  shows "bulk_item err st (Some b) = (Inl (GraphQLError EMAIL_EXISTS_MSG), False)"
  using assms
  by (auto simp: bulk_item_def validate_email_unique_def list_ex_iff)

lemma bulk_item_valid:
  assumes "ci_name a \<noteq> []" "ci_email a \<noteq> []" "validate_phone (ci_phone a) = None"
    "validate_email_unique st (ci_email a) = None"
  shows "bulk_item err st (Some a)
      = save_in_atomic err st (strip (ci_name a)) (strip (ci_email a)) (phone_or_empty (ci_phone a))"
  using assms by (simp add: bulk_item_def)

lemma save_in_atomic_not_fail: "save_in_atomic err st nm em ph \<noteq> (Inl e, False)"
  by (simp add: save_in_atomic_def split: sum.splits)

lemma bulk_loop_later_duplicate:
  assumes "bulk_loop err idx cs ([], [], st) = Inr (cr, er, st')"
    and "obj \<in> set (customers st)" and "k < length cs" and "cs ! k = Some b"
    and "iexact (c_email obj) (ci_email b)" and "ci_name b \<noteq> []" and "ci_email b \<noteq> []"
  shows "\<lparr>be_index = idx + k, be_email = Some (ci_email b), be_message = EMAIL_EXISTS_MSG\<rparr>
      \<in> set er"
  using assms
proof (induction cs arbitrary: idx st cr er k)
  case Nil
  then show ?case by simp
next
  case (Cons c cs)
  from Cons.prems(1) show ?case
  proof (cases rule: bulk_loop_ConsE)
    case (ok obj1 st1 cr1)
    show ?thesis
    proof (cases k)
      case 0
      with Cons.prems have "bulk_item err st c = (Inl (GraphQLError EMAIL_EXISTS_MSG), False)"
        using bulk_item_duplicate [of obj st b err] by simp
      with ok(1) show ?thesis by simp
    next
      case (Suc k')
      have "obj \<in> set (customers st1)"
        using bulk_item_ok_store [OF ok(1)] Cons.prems(2) by simp
      from Cons.IH [OF ok(2) this, of k'] Cons.prems Suc show ?thesis by simp
    qed
  next
    case (fail e er1)
    show ?thesis
    proof (cases k)
      case 0
      with Cons.prems have "bulk_item err st c = (Inl (GraphQLError EMAIL_EXISTS_MSG), False)"
        using bulk_item_duplicate [of obj st b err] by simp
      with fail(1) have "e = GraphQLError EMAIL_EXISTS_MSG" by simp
      with fail(3) 0 Cons.prems(4) show ?thesis
        by (simp add: bulk_error_def getattr_email_def)
    next
      case (Suc k')
      from Cons.IH [OF fail(2) Cons.prems(2), of k'] Cons.prems Suc fail(3) show ?thesis by simp
    qed
  qed
qed

lemma bulk_loop_pair:
  assumes run: "bulk_loop err idx cs ([], [], st) = Inr (cr, er, st')"
    and pre: "bulk_loop err idx (take i cs) ([], [], st) = Inr (cri, eri, sti)"
    and ij: "i < j" "j < length cs"
    and inputs: "cs ! i = Some a" "cs ! j = Some b"
    and same: "ci_email a = ci_email b" "strip (ci_email a) = ci_email a"
    and valid: "ci_name a \<noteq> []" "ci_email a \<noteq> []" "validate_phone (ci_phone a) = None"
      "ci_name b \<noteq> []"
    and absent: "validate_email_unique sti (ci_email a) = None"
  shows "idx + i \<notin> set (map be_index er)"
    and "\<exists>obj \<in> set cr. c_email obj = ci_email a \<and> c_name obj = strip (ci_name a)"
    and "\<lparr>be_index = idx + j, be_email = Some (ci_email b), be_message = EMAIL_EXISTS_MSG\<rparr>
      \<in> set er"
proof -
  have i: "i < length cs" using ij by simp
  from run i obtain crk erk stk cr2 er2 where
    prek: "bulk_loop err idx (take i cs) ([], [], st) = Inr (crk, erk, stk)"
    and rest: "bulk_loop err (idx + i) (cs ! i # drop (Suc i) cs) ([], [], stk) = Inr (cr2, er2, st')"
    and eqs: "cr = crk @ cr2" "er = erk @ er2"
    by (rule bulk_loop_at)
  from pre prek have stk: "stk = sti" by simp
  have item: "bulk_item err sti (cs ! i)
      = save_in_atomic err sti (strip (ci_name a)) (strip (ci_email a)) (phone_or_empty (ci_phone a))"
    using bulk_item_valid [OF valid(1,2,3) absent] inputs(1) by simp
  have range_k: "set (map be_index erk) \<subseteq> {idx..<idx + i}"
    using bulk_loop_index_range [OF prek] i by simp
  from rest have "idx + i \<notin> set (map be_index er)
      \<and> (\<exists>obj \<in> set cr. c_email obj = ci_email a \<and> c_name obj = strip (ci_name a))
      \<and> \<lparr>be_index = idx + j, be_email = Some (ci_email b), be_message = EMAIL_EXISTS_MSG\<rparr>
          \<in> set er"
  proof (cases rule: bulk_loop_ConsE)
    case (ok obj s cr3)
    have range3: "set (map be_index er2) \<subseteq> {Suc (idx + i)..<Suc (idx + i) + length (drop (Suc i) cs)}"
      using bulk_loop_index_range [OF ok(2)] .
    have first: "idx + i \<notin> set (map be_index er)"
      using range_k range3 unfolding eqs by auto
    have row: "c_email obj = ci_email a" "c_name obj = strip (ci_name a)"
      "customers s = customers stk @ [obj]"
      using bulk_item_ok_row [of err stk a obj s False] ok(1) inputs(1) same(2) by simp_all
    have created: "\<exists>obj \<in> set cr. c_email obj = ci_email a \<and> c_name obj = strip (ci_name a)"
      using row ok(3) unfolding eqs by auto
    have pos: "j - Suc i < length (drop (Suc i) cs)" "drop (Suc i) cs ! (j - Suc i) = Some b"
      using ij inputs(2) by simp_all
    have "obj \<in> set (customers s)" using row(3) by simp
    from bulk_loop_later_duplicate [OF ok(2) this pos]
    have "\<lparr>be_index = Suc (idx + i) + (j - Suc i), be_email = Some (ci_email b),
            be_message = EMAIL_EXISTS_MSG\<rparr> \<in> set er2"
      using row(1) same(1) valid(2,4) by (simp add: iexact_refl)
    moreover have "Suc (idx + i) + (j - Suc i) = idx + j" using ij by simp
    ultimately have "\<lparr>be_index = idx + j, be_email = Some (ci_email b),
            be_message = EMAIL_EXISTS_MSG\<rparr> \<in> set er"
      unfolding eqs by simp
    with first created show ?thesis by blast
  next
    case (fail e er1)
    with item stk save_in_atomic_not_fail show ?thesis by metis
  qed
  then show "idx + i \<notin> set (map be_index er)"
    and "\<exists>obj \<in> set cr. c_email obj = ci_email a \<and> c_name obj = strip (ci_name a)"
    and "\<lparr>be_index = idx + j, be_email = Some (ci_email b), be_message = EMAIL_EXISTS_MSG\<rparr>
      \<in> set er"
    by blast+
qed

text \<open>The only exception that leaves the loop is the one of the rollback.\<close>

lemma bulk_loop_Inl:
  "bulk_loop err idx cs (cr, er, st) = Inl e \<Longrightarrow> e = OtherException TransactionManagementError_msg"
proof (induction cs arbitrary: idx cr er st)
  case Nil
  then show ?case by simp
next
  case (Cons c cs)
  show ?case
  proof (cases err st c rule: bulk_item_cases)
    case (ok obj st1)
    from Cons.prems show ?thesis
      unfolding bulk_loop_step_ok [OF ok] by (rule Cons.IH)
  next
    case (fail e')
    from Cons.prems show ?thesis
      unfolding bulk_loop_step_fail [OF fail] by (rule Cons.IH)
  next
    case (escape e')
    from Cons.prems show ?thesis
      unfolding bulk_loop_step_escape [OF escape] by simp
  qed
qed

lemma bulk_mutate_Inl:
  assumes "fst (BulkCreateCustomers_mutate err st cs) = Inl e"
  shows "e = OtherException TransactionManagementError_msg"
proof (cases "bulk_loop err 0 cs ([], [], st)")
  case (Inl e')
  with assms have "e' = e" by (simp add: BulkCreateCustomers_mutate_def)
  with Inl show ?thesis by (auto dest: bulk_loop_Inl)
next
  case (Inr res)
  with assms show ?thesis by (simp add: BulkCreateCustomers_mutate_def split: prod.splits)
qed

lemma bulk_mutate_no_error: "\<not> isl (fst (BulkCreateCustomers_mutate no_error st cs))"
proof -
  obtain res where "bulk_loop no_error 0 cs ([], [], st) = Inr res"
    using bulk_loop_no_error by blast
  then show ?thesis by (simp add: BulkCreateCustomers_mutate_def split: prod.splits)
qed

section \<open>CreateCustomer and the uniqueness check\<close>

lemma create_customer_rejects_case_variant:
  assumes "c \<in> set (customers st)" "iexact (c_email c) email"
  shows "CreateCustomer_mutate err st name email phone = (Inl (GraphQLError EMAIL_EXISTS_MSG), st)"
  using assms
  by (auto simp: CreateCustomer_mutate_def validate_email_unique_def list_ex_iff)

lemma create_customer_all_or_nothing:
  "fst (CreateCustomer_mutate err st name email phone) = Inl e \<Longrightarrow>
     snd (CreateCustomer_mutate err st name email phone) = st"
  by (auto simp: CreateCustomer_mutate_def split: option.splits sum.splits prod.splits)

lemma create_customer_trimmed_keeps_unique:
  assumes "emails_unique st" "strip email = email"
  shows "emails_unique (snd (CreateCustomer_mutate err st name email phone))"
  using assms
  by (auto simp: CreateCustomer_mutate_def validate_email_unique_def list_ex_iff
      Customer_save_def Let_def emails_unique_def iexact_def split: option.splits)

section \<open>CreateOrder, step by step\<close>

lemma atomic_failure_restores: "fst (atomic block st) = Inl e \<Longrightarrow> snd (atomic block st) = st"
  by (auto simp: atomic_def split: prod.splits sum.splits)

lemma those_map_Some: "those (map Some xs) = Some xs"
  by (induction xs) simp_all

lemma those_map:
  "those (map f xs) = (if list_all (\<lambda>x. f x \<noteq> None) xs then Some (map (\<lambda>x. the (f x)) xs) else None)"
  by (induction xs) (auto split: option.splits)

lemma find_present: "\<exists>c \<in> set cs. P c \<Longrightarrow> \<exists>c. find P cs = Some c \<and> P c \<and> c \<in> set cs"
  by (induction cs) auto

lemma missing_eq:
  "set pks - set (map p_pk (filter (\<lambda>p. p_pk p \<in> set pks) (products st)))
     = {k \<in> set pks. k \<notin> p_pk ` set (products st)}"
  by auto

lemma missing_empty:
  "({k \<in> set pks. k \<notin> p_pk ` set (products st)} = {}) = (set pks \<subseteq> p_pk ` set (products st))"
  by auto

text \<open>The call once the customer and the product keys are resolved.\<close>

lemma CreateOrder_resolved:
  assumes "pids \<noteq> []" "py_int env cid = Some cpk"
    "find (\<lambda>c. c_pk c = cpk) (customers st) = Some c"
    "those (map (py_int env) pids) = Some pks"
  shows "CreateOrder_mutate env st cid pids od =
     (if \<not> list_all fits_int64 pks then (Inl (OtherException OverflowError_msg), st)
      else if \<not> set pks \<subseteq> p_pk ` set (products st)
      then (Inl (GraphQLError (''Invalid product ID(s): ''
                   @ str_int_list (sorted_list_of_set
                       {k \<in> set pks. k \<notin> p_pk ` set (products st)}))), st)
      else case atomic (order_block env c od
                  (py_sum (map p_price (found st pks)) (Decimal 0 (- 2))) (found st pks)) st of
             (Inl e, st') \<Rightarrow> (Inl e, st')
           | (Inr ord, st') \<Rightarrow>
               (Inr \<lparr>co_ok = True, co_order = ord, co_message = ''Order created.''\<rparr>, st'))"
proof (cases "list_all fits_int64 pks")
  case False
  then show ?thesis
    by (simp add: CreateOrder_mutate_def assms Product_filter_pk_in_def)
next
  case True
  have q: "Product_filter_pk_in st pks = Inr (found st pks)"
    using True by (simp add: Product_filter_pk_in_def found_def)
  have m: "set pks - set (map p_pk (found st pks))
      = {k \<in> set pks. k \<notin> p_pk ` set (products st)}"
    unfolding found_def by (rule missing_eq)
  show ?thesis
  proof (cases "set pks \<subseteq> p_pk ` set (products st)")
    case sub: True
    then have "{k \<in> set pks. k \<notin> p_pk ` set (products st)} = {}" by auto
    then show ?thesis
      using True sub
      by (simp add: CreateOrder_mutate_def assms q m Let_def del: set_map)
  next
    case nsub: False
    then have "{k \<in> set pks. k \<notin> p_pk ` set (products st)} \<noteq> {}" by auto
    then show ?thesis
      using True nsub
      by (simp add: CreateOrder_mutate_def assms q m Let_def del: set_map)
  qed
qed

lemma CreateOrder_success:
  assumes "CreateOrder_mutate env st cid pids od = (Inr r, st')"
  obtains c pks where "pids \<noteq> []" "those (map (py_int env) pids) = Some pks"
    "set pks \<subseteq> p_pk ` set (products st)"
    "co_order r = new_order env st c od pks"
    "st' = st\<lparr>orders := orders st @ [new_order env st c od pks],
             order_products :=
               filter (\<lambda>l. fst l \<noteq> o_pk (new_order env st c od pks)) (order_products st)
               @ map (\<lambda>p. (o_pk (new_order env st c od pks), p_pk p)) (found st pks)\<rparr>"
proof -
  from assms have ne: "pids \<noteq> []"
    by (auto simp: CreateOrder_mutate_def split: if_splits)
  from assms ne obtain cpk where cpk: "py_int env cid = Some cpk"
    by (auto simp: CreateOrder_mutate_def split: option.splits)
  from assms ne cpk obtain c where c: "find (\<lambda>c. c_pk c = cpk) (customers st) = Some c"
    by (auto simp: CreateOrder_mutate_def split: option.splits)
  from assms ne cpk c obtain pks where pks: "those (map (py_int env) pids) = Some pks"
    by (auto simp: CreateOrder_mutate_def split: option.splits)
  note run = assms [unfolded CreateOrder_resolved [OF ne cpk c pks]]
  have fits: "list_all fits_int64 pks"
    using run by (auto split: if_splits)
  have sub: "set pks \<subseteq> p_pk ` set (products st)"
    using run fits by (auto split: if_splits)
  have blk: "(case atomic (order_block env c od (py_sum (map p_price (found st pks)) (Decimal 0 (- 2)))
                  (found st pks)) st of
                (Inl e, st') \<Rightarrow> (Inl e, st')
              | (Inr ord, st') \<Rightarrow>
                  (Inr \<lparr>co_ok = True, co_order = ord, co_message = ''Order created.''\<rparr>, st'))
             = (Inr r, st')"
    using run fits sub by simp
  have "co_order r = new_order env st c od pks \<and>
    st' = st\<lparr>orders := orders st @ [new_order env st c od pks],
             order_products :=
               filter (\<lambda>l. fst l \<noteq> o_pk (new_order env st c od pks)) (order_products st)
               @ map (\<lambda>p. (o_pk (new_order env st c od pks), p_pk p)) (found st pks)\<rparr>"
    using blk
    by (auto simp: atomic_def order_block_def Order_objects_create_def products_set_def Let_def
        new_order_def split: prod.splits sum.splits option.splits)
  with that [OF ne pks sub] show thesis by blast
qed

lemma linked_products_new_order:
  assumes "st' = st\<lparr>orders := os,
             order_products := filter (\<lambda>l. fst l \<noteq> k) (order_products st)
               @ map (\<lambda>p. (k, p_pk p)) (found st pks)\<rparr>"
    and "o_pk ord = k"
  shows "linked_products st' ord = found st pks"
proof -
  have "linked_products st' ord
      = filter (\<lambda>p. p_pk p \<in> p_pk ` set (found st pks)) (products st)"
    unfolding linked_products_def using assms by (auto intro!: filter_cong)
  also have "\<dots> = found st pks"
    unfolding found_def by (rule filter_cong) (auto simp: image_iff)
  finally show ?thesis .
qed

lemma count_list_distinct: "distinct xs \<Longrightarrow> x \<in> set xs \<Longrightarrow> count_list xs x = 1"
  by (induction xs) auto

lemma count_list_pair_map: "count_list (map (\<lambda>p. (k, f p)) ps) (k, x) = count_list (map f ps) x"
  by (induction ps) auto

lemma count_list_filter_fst: "count_list (filter (\<lambda>l. fst l \<noteq> k) ls) (k, x) = 0"
  by (induction ls) auto

lemma CreateOrder_success_store:
  assumes "CreateOrder_mutate env st customer_id product_ids order_date = (Inr r, st')"
  obtains c pks where "those (map (py_int env) product_ids) = Some pks"
    "set pks \<subseteq> p_pk ` set (products st)"
    "co_order r = new_order env st c order_date pks"
    "linked_products st' (co_order r) = found st pks"
    "orders st' = orders st @ [co_order r]"
    "order_products st' = filter (\<lambda>l. fst l \<noteq> o_pk (co_order r)) (order_products st)
               @ map (\<lambda>p. (o_pk (co_order r), p_pk p)) (found st pks)"
    "o_total_amount (co_order r) = py_sum (map p_price (found st pks)) (Decimal 0 (- 2))"
proof -
  from assms obtain c pks where those: "those (map (py_int env) product_ids) = Some pks"
    and sub: "set pks \<subseteq> p_pk ` set (products st)"
    and ord: "co_order r = new_order env st c order_date pks"
    and st': "st' = st\<lparr>orders := orders st @ [new_order env st c order_date pks],
             order_products :=
               filter (\<lambda>l. fst l \<noteq> o_pk (new_order env st c order_date pks)) (order_products st)
               @ map (\<lambda>p. (o_pk (new_order env st c order_date pks), p_pk p)) (found st pks)\<rparr>"
    by (rule CreateOrder_success)
  have linked: "linked_products st' (co_order r) = found st pks"
    by (rule linked_products_new_order [OF st']) (simp only: ord)
  have total: "o_total_amount (co_order r) = py_sum (map p_price (found st pks)) (Decimal 0 (- 2))"
    unfolding ord new_order_def by simp
  have os: "orders st' = orders st @ [co_order r]"
    unfolding ord by (subst st') simp
  have ls: "order_products st' = filter (\<lambda>l. fst l \<noteq> o_pk (co_order r)) (order_products st)
               @ map (\<lambda>p. (o_pk (co_order r), p_pk p)) (found st pks)"
    unfolding ord by (subst st') simp
  from that [OF those sub ord linked os ls total] show thesis .
qed

lemma CreateOrder_mutate_set_cong:
  assumes "set product_ids = set product_ids'"
  shows "CreateOrder_mutate env st customer_id product_ids order_date
     = CreateOrder_mutate env st customer_id product_ids' order_date"
proof -
  let ?g = "\<lambda>x. the (py_int env x)"
  have e: "(product_ids = []) = (product_ids' = [])"
    using assms by (metis set_empty)
  have a: "list_all (\<lambda>x. py_int env x \<noteq> None) product_ids
      = list_all (\<lambda>x. py_int env x \<noteq> None) product_ids'"
    using assms by (simp add: list_all_iff)
  have s: "set (map ?g product_ids) = set (map ?g product_ids')"
    using assms by simp
  have q: "Product_filter_pk_in st (map ?g product_ids)
      = Product_filter_pk_in st (map ?g product_ids')"
    unfolding Product_filter_pk_in_def list_all_iff s ..
  show ?thesis
    unfolding CreateOrder_mutate_def those_map e a
    by (simp only: s q option.case if_distrib [of "case_option _ _"] cong: if_cong)
qed

section \<open>Decimal sums\<close>

declare excess.simps [simp del]

lemma dec_val_powi: "dec_val (Decimal c e) = of_int c * 10 powi e"
  by (simp add: power_int_def field_simps)

lemma scale_powi:
  assumes "e \<le> e1"
  shows "(of_int (c * 10 ^ nat (e1 - e)) :: rat) * 10 powi e = of_int c * 10 powi e1"
proof -
  have "(10::rat) ^ nat (e1 - e) = 10 powi (e1 - e)"
    using assms by (simp add: power_int_def)
  moreover have "(10::rat) powi (e1 - e) * 10 powi e = 10 powi e1"
    by (simp add: power_int_add [symmetric])
  ultimately show ?thesis by (simp add: mult.assoc)
qed

lemma dec_val_add_exact: "dec_val (dec_add_exact a b) = dec_val a + dec_val b"
proof (cases a, cases b)
  fix c1 e1 c2 e2
  assume a: "a = Decimal c1 e1" and b: "b = Decimal c2 e2"
  let ?e = "min e1 e2"
  have "dec_val (dec_add_exact a b)
      = (of_int (c1 * 10 ^ nat (e1 - ?e)) + of_int (c2 * 10 ^ nat (e2 - ?e))) * 10 powi ?e"
    unfolding a b by (simp only: dec_add_exact.simps Let_def dec_val_powi of_int_add)
  also have "\<dots> = of_int c1 * 10 powi e1 + of_int c2 * 10 powi e2"
    by (simp only: distrib_right scale_powi [of ?e e1 c1] scale_powi [of ?e e2 c2]
        min.cobounded1 min.cobounded2)
  finally show ?thesis unfolding a b by (simp only: dec_val_powi)
qed

lemma dec_le_zero_iff: "dec_le_zero d \<longleftrightarrow> dec_val d \<le> 0"
proof (cases d)
  case (Decimal c e)
  have "(0::rat) < 10 powi e" by (simp add: power_int_def)
  then have "of_int c * 10 powi e \<le> (0::rat) \<longleftrightarrow> c \<le> 0"
    by (auto simp: mult_le_0_iff not_le [symmetric] less_imp_le)
  then show ?thesis by (simp only: Decimal dec_le_zero.simps dec_val_powi)
qed

lemma dec_add_exact_commute: "dec_add_exact a b = dec_add_exact b a"
  by (cases a; cases b) (simp add: Let_def min.commute add.commute)

lemma pow_split:
  assumes "(m::int) \<le> e" "k \<le> m"
  shows "(10::int) ^ nat (e - m) * 10 ^ nat (m - k) = 10 ^ nat (e - k)"
proof -
  have "nat (e - m) + nat (m - k) = nat (e - k)" using assms by simp
  then show ?thesis by (simp add: power_add [symmetric])
qed

lemma dec_add_exact_assoc:
  "dec_add_exact (dec_add_exact a b) c = dec_add_exact a (dec_add_exact b c)"
proof (cases a, cases b, cases c)
  fix c1 e1 c2 e2 c3 e3
  assume abc: "a = Decimal c1 e1" "b = Decimal c2 e2" "c = Decimal c3 e3"
  let ?m = "min (min e1 e2) e3"
  have m: "min e1 (min e2 e3) = ?m" by (simp add: min.assoc)
  have l: "dec_add_exact (dec_add_exact a b) c
      = Decimal ((c1 * 10 ^ nat (e1 - min e1 e2) + c2 * 10 ^ nat (e2 - min e1 e2))
                   * 10 ^ nat (min e1 e2 - ?m) + c3 * 10 ^ nat (e3 - ?m)) ?m"
    unfolding abc by (simp only: dec_add_exact.simps Let_def)
  have r: "dec_add_exact a (dec_add_exact b c)
      = Decimal (c1 * 10 ^ nat (e1 - ?m)
                  + (c2 * 10 ^ nat (e2 - min e2 e3) + c3 * 10 ^ nat (e3 - min e2 e3))
                     * 10 ^ nat (min e2 e3 - ?m)) ?m"
    unfolding abc by (simp only: dec_add_exact.simps Let_def m)
  have p1: "(10::int) ^ nat (e1 - min e1 e2) * 10 ^ nat (min e1 e2 - ?m) = 10 ^ nat (e1 - ?m)"
    by (rule pow_split) auto
  have p2: "(10::int) ^ nat (e2 - min e1 e2) * 10 ^ nat (min e1 e2 - ?m) = 10 ^ nat (e2 - ?m)"
    by (rule pow_split) auto
  have p3: "(10::int) ^ nat (e2 - min e2 e3) * 10 ^ nat (min e2 e3 - ?m) = 10 ^ nat (e2 - ?m)"
    by (rule pow_split) auto
  have p4: "(10::int) ^ nat (e3 - min e2 e3) * 10 ^ nat (min e2 e3 - ?m) = 10 ^ nat (e3 - ?m)"
    by (rule pow_split) auto
  show ?thesis
    unfolding l r
    by (simp only: distrib_right mult.assoc p1 p2 p3 p4 add.assoc)
qed

lemma dec_add_exact_swap:
  "dec_add_exact (dec_add_exact s x) y = dec_add_exact (dec_add_exact s y) x"
  by (simp only: dec_add_exact_assoc dec_add_exact_commute [of x y])

lemma py_sum_exact_val:
  "dec_val (py_sum_exact xs start) = dec_val start + sum_list (map dec_val xs)"
  by (induction xs arbitrary: start) (simp_all add: py_sum_exact_def dec_val_add_exact)

lemma py_sum_exact_fold: "py_sum_exact xs start = fold (\<lambda>x s. dec_add_exact s x) xs start"
  by (simp add: py_sum_exact_def foldl_conv_fold)

lemma py_sum_exact_permute:
  assumes "mset xs = mset ys"
  shows "py_sum_exact xs start = py_sum_exact ys start"
proof -
  have "fold (\<lambda>x s. dec_add_exact s x) xs = fold (\<lambda>x s. dec_add_exact s x) ys"
    by (rule fold_multiset_equiv) (simp_all add: assms fun_eq_iff dec_add_exact_swap)
  then show ?thesis by (simp add: py_sum_exact_fold)
qed

text \<open>A result within the precision of the context is not rounded.\<close>

lemma excess_small: "n < 10 ^ prec \<Longrightarrow> excess n = 0"
  by (simp add: excess.simps)

lemma dec_fix_small: "\<bar>c\<bar> < 10 ^ prec \<Longrightarrow> dec_fix (Decimal c e) = Decimal c e"
  by (simp add: excess_small Let_def)

lemma dec_add_small:
  assumes "\<bar>coefficient (dec_add_exact a b)\<bar> < 10 ^ prec"
  shows "dec_add a b = dec_add_exact a b"
proof (cases "dec_add_exact a b")
  case (Decimal c e)
  with assms have "\<bar>c\<bar> < 10 ^ prec" by simp
  then have "dec_fix (Decimal c e) = Decimal c e" by (rule dec_fix_small)
  then show ?thesis by (simp only: dec_add_def Decimal)
qed

text \<open>
  The coefficient of a sum is bounded by the coefficient of the sum of the absolute
  values, which only grows as more values are added.
\<close>

lemma dec_add_exact_bound:
  assumes "exponent s = exponent sa" "\<bar>coefficient s\<bar> \<le> coefficient sa"
  shows "exponent (dec_add_exact s x) = exponent (dec_add_exact sa (abs_dec x))"
    and "\<bar>coefficient (dec_add_exact s x)\<bar> \<le> coefficient (dec_add_exact sa (abs_dec x))"
proof -
  obtain c e where s: "s = Decimal c e" by (cases s)
  obtain a e' where sa: "sa = Decimal a e'" by (cases sa)
  obtain cx ex where x: "x = Decimal cx ex" by (cases x)
  from assms have e: "e' = e" and ca: "\<bar>c\<bar> \<le> a" by (simp_all add: s sa)
  show "exponent (dec_add_exact s x) = exponent (dec_add_exact sa (abs_dec x))"
    by (simp add: s sa x e Let_def)
  let ?p = "(10::int) ^ nat (e - min e ex)" and ?q = "(10::int) ^ nat (ex - min e ex)"
  have "\<bar>c * ?p + cx * ?q\<bar> \<le> \<bar>c * ?p\<bar> + \<bar>cx * ?q\<bar>" by (rule abs_triangle_ineq)
  also have "\<dots> = \<bar>c\<bar> * ?p + \<bar>cx\<bar> * ?q" by (simp add: abs_mult)
  also have "\<dots> \<le> a * ?p + \<bar>cx\<bar> * ?q"
    using ca by (simp add: mult_right_mono)
  finally show "\<bar>coefficient (dec_add_exact s x)\<bar> \<le> coefficient (dec_add_exact sa (abs_dec x))"
    by (simp add: s sa x e Let_def)
qed

lemma dec_add_exact_abs_grows:
  assumes "0 \<le> coefficient t"
  shows "coefficient t \<le> coefficient (dec_add_exact t (abs_dec y))"
proof -
  obtain c e where t: "t = Decimal c e" by (cases t)
  obtain cy ey where y: "y = Decimal cy ey" by (cases y)
  let ?p = "(10::int) ^ nat (e - min e ey)" and ?q = "(10::int) ^ nat (ey - min e ey)"
  from assms have c: "0 \<le> c" by (simp add: t)
  have "1 \<le> ?p" by simp
  then have "c * 1 \<le> c * ?p" using c by (rule mult_left_mono)
  moreover have "0 \<le> \<bar>cy\<bar> * ?q" by simp
  ultimately have "c \<le> c * ?p + \<bar>cy\<bar> * ?q" by linarith
  then show ?thesis by (simp add: t y Let_def)
qed

lemma py_sum_exact_abs_grows:
  "0 \<le> coefficient t \<Longrightarrow> coefficient t \<le> coefficient (py_sum_exact (map abs_dec ys) t)"
proof (induction ys arbitrary: t)
  case Nil
  then show ?case by (simp add: py_sum_exact_def)
next
  case (Cons y ys)
  have step: "coefficient t \<le> coefficient (dec_add_exact t (abs_dec y))"
    using Cons.prems by (rule dec_add_exact_abs_grows)
  with Cons.prems have "0 \<le> coefficient (dec_add_exact t (abs_dec y))" by simp
  from Cons.IH [OF this] step show ?case by (simp add: py_sum_exact_def)
qed

lemma py_sum_within:
  assumes "exponent s = exponent sa" "\<bar>coefficient s\<bar> \<le> coefficient sa"
    and "coefficient (py_sum_exact (map abs_dec xs) sa) < 10 ^ prec"
  shows "py_sum xs s = py_sum_exact xs s"
  using assms
proof (induction xs arbitrary: s sa)
  case Nil
  show ?case by (simp add: py_sum_def py_sum_exact_def)
next
  case (Cons x xs)
  let ?s = "dec_add_exact s x" and ?sa = "dec_add_exact sa (abs_dec x)"
  have b: "exponent ?s = exponent ?sa" "\<bar>coefficient ?s\<bar> \<le> coefficient ?sa"
    using dec_add_exact_bound [OF Cons.prems(1,2)] by simp_all
  then have nonneg: "0 \<le> coefficient ?sa" by simp
  have rest: "coefficient (py_sum_exact (map abs_dec xs) ?sa) < 10 ^ prec"
    using Cons.prems(3) by (simp add: py_sum_exact_def)
  have "coefficient ?sa < 10 ^ prec"
    using py_sum_exact_abs_grows [OF nonneg, of xs] rest by simp
  with b(2) have "\<bar>coefficient ?s\<bar> < 10 ^ prec" by simp
  then have step: "dec_add s x = ?s" by (rule dec_add_small)
  have "py_sum xs ?s = py_sum_exact xs ?s"
    using b rest by (rule Cons.IH)
  then show ?case by (simp add: py_sum_def py_sum_exact_def step)
qed

lemma py_sum_exact_when_within:
  assumes "within_precision xs"
  shows "py_sum xs (Decimal 0 (- 2)) = py_sum_exact xs (Decimal 0 (- 2))"
proof (rule py_sum_within)
  show "exponent (Decimal 0 (- 2)) = exponent (Decimal 0 (- 2))" by (rule refl)
  show "\<bar>coefficient (Decimal 0 (- 2))\<bar> \<le> coefficient (Decimal 0 (- 2))" by simp
  show "coefficient (py_sum_exact (map abs_dec xs) (Decimal 0 (- 2))) < 10 ^ prec"
    using assms unfolding within_precision_def .
qed

lemma within_precision_permute:
  assumes "mset xs = mset ys"
  shows "within_precision xs = within_precision ys"
proof -
  from assms have "mset (map abs_dec xs) = mset (map abs_dec ys)" by simp
  then have "py_sum_exact (map abs_dec xs) (Decimal 0 (- 2))
      = py_sum_exact (map abs_dec ys) (Decimal 0 (- 2))"
    by (rule py_sum_exact_permute)
  then show ?thesis
    unfolding within_precision_def by (rule arg_cong)
qed

lemma py_sum_val:
  assumes "within_precision xs"
  shows "dec_val (py_sum xs (Decimal 0 (- 2))) = sum_list (map dec_val xs)"
  by (simp add: py_sum_exact_when_within [OF assms] py_sum_exact_val)

lemma py_sum_permute:
  assumes "within_precision xs" "mset ys = mset xs"
  shows "py_sum ys (Decimal 0 (- 2)) = py_sum xs (Decimal 0 (- 2))"
proof -
  have "within_precision ys"
    using assms(1) within_precision_permute [OF assms(2)] by (rule iffD2 [rotated])
  then have "py_sum ys (Decimal 0 (- 2)) = py_sum_exact ys (Decimal 0 (- 2))"
    by (rule py_sum_exact_when_within)
  also have "\<dots> = py_sum_exact xs (Decimal 0 (- 2))"
    using assms(2) by (rule py_sum_exact_permute)
  also have "\<dots> = py_sum xs (Decimal 0 (- 2))"
    using assms(1) by (rule py_sum_exact_when_within [symmetric])
  finally show ?thesis .
qed

text \<open>Beyond the precision a sum is rounded, and the order of the additions matters.\<close>

lemma dec_add_rounds:
  "dec_add (Decimal (10 ^ 28 - 1) 0) (Decimal 1 (- 2)) = Decimal (10 ^ 28 - 1) 0"
  by code_simp

lemma py_sum_order_matters:
  "py_sum [Decimal (10 ^ 28 - 1) 0, Decimal 4 (- 1), Decimal 4 (- 1)] (Decimal 0 (- 2))
     = Decimal (10 ^ 28 - 1) 0
   \<and> py_sum [Decimal 4 (- 1), Decimal 4 (- 1), Decimal (10 ^ 28 - 1) 0] (Decimal 0 (- 2))
     = Decimal (10 ^ 27) 1"
  by code_simp

text \<open>
  Prices of a column with two decimal places and at most ten digits stay within the
  precision, for any number of products an order can link.
\<close>

lemma py_sum_exact_abs_column:
  assumes "\<forall>d \<in> set xs. exponent d = - 2"
  shows "py_sum_exact (map abs_dec xs) (Decimal s (- 2))
      = Decimal (s + sum_list (map (\<lambda>d. \<bar>coefficient d\<bar>) xs)) (- 2)"
  using assms
proof (induction xs arbitrary: s)
  case Nil
  show ?case by (simp add: py_sum_exact_def)
next
  case (Cons x xs)
  obtain c e where x: "x = Decimal c e" by (cases x)
  from Cons.prems have e: "e = - 2" by (simp add: x)
  have step: "dec_add_exact (Decimal s (- 2)) (abs_dec x) = Decimal (s + \<bar>c\<bar>) (- 2)"
    by (simp add: x e Let_def)
  have "py_sum_exact (map abs_dec (x # xs)) (Decimal s (- 2))
      = py_sum_exact (map abs_dec xs) (Decimal (s + \<bar>c\<bar>) (- 2))"
    by (simp add: py_sum_exact_def step)
  also have "\<dots> = Decimal (s + \<bar>c\<bar> + sum_list (map (\<lambda>d. \<bar>coefficient d\<bar>) xs)) (- 2)"
    using Cons.prems by (intro Cons.IH) simp
  finally show ?case by (simp add: x add.assoc)
qed

lemma sum_list_bounded:
  assumes "\<forall>d \<in> set xs. f d \<le> (b::int)"
  shows "sum_list (map f xs) \<le> int (length xs) * b"
  using assms by (induction xs) (auto simp: algebra_simps)

lemma within_precision_column:
  assumes "\<forall>d \<in> set xs. exponent d = - 2 \<and> \<bar>coefficient d\<bar> < 10 ^ 10"
    and "length xs \<le> 10 ^ 18"
  shows "within_precision xs"
proof -
  from assms(1) have ex: "\<forall>d \<in> set xs. exponent d = - 2"
    and co: "\<forall>d \<in> set xs. \<bar>coefficient d\<bar> \<le> 10 ^ 10 - 1"
    by auto
  have "sum_list (map (\<lambda>d. \<bar>coefficient d\<bar>) xs) \<le> int (length xs) * (10 ^ 10 - 1)"
    using co by (rule sum_list_bounded)
  also have "\<dots> \<le> 10 ^ 18 * (10 ^ 10 - 1)"
    using assms(2) by (intro mult_right_mono) simp_all
  also have "\<dots> < (10::int) ^ prec" by (simp add: prec_def)
  finally show ?thesis
    unfolding within_precision_def py_sum_exact_abs_column [OF ex] by simp
qed

section \<open>validate_price_and_stock, case by case\<close>

lemma validate_unparsable:
  "Decimal_str conv price = None \<Longrightarrow>
     validate_price_and_stock conv price stock
       = Inl (GraphQLError ''Price must be a valid decimal number.'')"
  by (simp add: validate_price_and_stock_def)

lemma validate_compare_raises:
  "Decimal_str conv price = Some p \<Longrightarrow> le_zero p = Inl e \<Longrightarrow>
     validate_price_and_stock conv price stock = Inl e"
  by (simp add: validate_price_and_stock_def)

lemma validate_not_positive:
  "Decimal_str conv price = Some p \<Longrightarrow> le_zero p = Inr True \<Longrightarrow>
     validate_price_and_stock conv price stock = Inl (GraphQLError ''Price must be positive.'')"
  by (simp add: validate_price_and_stock_def)

lemma validate_positive:
  "Decimal_str conv price = Some p \<Longrightarrow> le_zero p = Inr False \<Longrightarrow>
     validate_price_and_stock conv price stock
       = (case stock of
            None \<Rightarrow> Inr (p, 0)
          | Some s \<Rightarrow> if s < 0 then Inl (GraphQLError ''Stock cannot be negative.'')
                      else Inr (p, s))"
  by (simp add: validate_price_and_stock_def split: option.splits)

lemma le_zero_positive: "is_positive p \<Longrightarrow> le_zero p = Inr False"
  by (cases p) (simp_all add: dec_le_zero_iff not_le)

lemma le_zero_finite: "dec_val d \<le> 0 \<Longrightarrow> le_zero (Finite d) = Inr True"
  by (simp add: dec_le_zero_iff)

lemma le_zero_cases:
  obtains (raises) e where "le_zero p = Inl e"
  | (not_positive) "le_zero p = Inr True"
  | (positive) "le_zero p = Inr False"
  by (cases "le_zero p") auto

lemma validate_returns:
  assumes "validate_price_and_stock conv price stock = Inr (p, s)"
  shows "Decimal_str conv price = Some p" "le_zero p = Inr False" "0 \<le> s"
proof -
  obtain q where q: "Decimal_str conv price = Some q"
    using assms validate_unparsable [of conv price stock]
    by (cases "Decimal_str conv price") simp_all
  have lz: "le_zero q = Inr False"
  proof (cases q rule: le_zero_cases)
    case (raises e)
    with assms validate_compare_raises [OF q, of e stock] show ?thesis by simp
  next
    case not_positive
    with assms validate_not_positive [OF q, of stock] show ?thesis by simp
  next
    case positive
    then show ?thesis .
  qed
  have v: "(case stock of
            None \<Rightarrow> Inr (q, 0)
          | Some s \<Rightarrow> if s < 0 then Inl (GraphQLError ''Stock cannot be negative.'')
                      else Inr (q, s)) = Inr (p, s)"
    using assms validate_positive [OF q lz, of stock] by simp
  then have "q = p" by (cases stock) (simp_all split: if_splits)
  with q lz show "Decimal_str conv price = Some p" "le_zero p = Inr False" by simp_all
  from v show "0 \<le> s" by (cases stock) (auto split: if_splits)
qed

lemma validate_negative_stock:
  assumes "s < 0"
  shows "isl (validate_price_and_stock conv price (Some s))"
proof (cases "Decimal_str conv price")
  case None
  then show ?thesis by (simp add: validate_unparsable)
next
  case (Some p)
  show ?thesis
  proof (cases p rule: le_zero_cases)
    case (raises e)
    then show ?thesis by (simp add: validate_compare_raises [OF Some])
  next
    case not_positive
    then show ?thesis by (simp add: validate_not_positive [OF Some])
  next
    case positive
    then show ?thesis using assms by (simp add: validate_positive [OF Some])
  qed
qed

lemma validate_again:
  assumes "validate_price_and_stock conv price stock = Inr (p, s)"
  shows "validate_price_and_stock conv (PDecimal p) (Some s) = Inr (p, s)"
proof -
  have "Decimal_str conv (PDecimal p) = Some p" by simp
  from validate_positive [OF this validate_returns(2) [OF assms], of "Some s"]
    validate_returns(3) [OF assms]
  show ?thesis by simp
qed

section \<open>Claims about BulkCreateCustomers\<close>

text \<open>
  C1. Whenever the call returns its two lists for a batch of size \<open>N\<close>, the lists
  together have \<open>N\<close> entries. The index fields of \<open>errors\<close> are strictly increasing and
  lie in \<open>0..N-1\<close>, so each failing index is reported once and in input order; the
  remaining indices, taken in increasing order, correspond one to one and in that
  order to the rows of \<open>created\<close>, each row holding the trimmed name and email and the
  phone of its input. The only way for the call not to return is the
  \<open>TransactionManagementError\<close> of a rollback after a failed write, and with a
  database whose writes succeed the call returns for every batch and every store.
\<close>

theorem bulk_ordering_invariant:
  "(case fst (BulkCreateCustomers_mutate err st cs) of
      Inl e \<Rightarrow> e = OtherException TransactionManagementError_msg
    | Inr r \<Rightarrow>
        (let failing = map be_index (errors r);
             successful = [i \<leftarrow> [0..<length cs]. i \<notin> set failing]
         in length (created r) + length (errors r) = length cs
            \<and> sorted_wrt (<) failing
            \<and> set failing \<subseteq> {0..<length cs}
            \<and> list_all2 built_from (created r) (map (\<lambda>i. cs ! i) successful)))
   \<and> \<not> isl (fst (BulkCreateCustomers_mutate no_error st cs))"
proof (rule conjI)
  show "\<not> isl (fst (BulkCreateCustomers_mutate no_error st cs))"
    by (rule bulk_mutate_no_error)
  show "case fst (BulkCreateCustomers_mutate err st cs) of
      Inl e \<Rightarrow> e = OtherException TransactionManagementError_msg
    | Inr r \<Rightarrow>
        (let failing = map be_index (errors r);
             successful = [i \<leftarrow> [0..<length cs]. i \<notin> set failing]
         in length (created r) + length (errors r) = length cs
            \<and> sorted_wrt (<) failing
            \<and> set failing \<subseteq> {0..<length cs}
            \<and> list_all2 built_from (created r) (map (\<lambda>i. cs ! i) successful))"
  proof (cases "fst (BulkCreateCustomers_mutate err st cs)")
    case (Inl e)
    then show ?thesis by (simp add: bulk_mutate_Inl [OF Inl])
  next
    case (Inr r)
    from bulk_mutate_returns [OF Inr] obtain st'
      where loop: "bulk_loop err 0 cs ([], [], st) = Inr (created r, errors r, st')"
      by blast
    show ?thesis
      unfolding Inr Let_def
      using bulk_loop_length [OF loop] bulk_loop_index_sorted [OF loop]
        bulk_loop_index_range [OF loop] bulk_loop_created [OF loop]
      by simp
  qed
qed

theorem bulk_ordering_invariant_witness:
  "(let r = \<lparr>created = [\<lparr>c_pk = 1, c_name = ''A'', c_email = ''a@x.com'', c_phone = []\<rparr>],
             errors = [\<lparr>be_index = 1, be_email = Some ''b@x.com'',
                        be_message = ''Both name and email are required.''\<rparr>,
                       \<lparr>be_index = 2, be_email = Some ''a@x.com'',
                        be_message = EMAIL_EXISTS_MSG\<rparr>]\<rparr>;
        failing = map be_index (errors r);
        successful = [i \<leftarrow> [0..<length spec_batch]. i \<notin> set failing]
    in fst (BulkCreateCustomers_mutate no_error empty_store spec_batch) = Inr r
       \<and> length (created r) + length (errors r) = length spec_batch
       \<and> sorted_wrt (<) failing
       \<and> set failing \<subseteq> {0..<length spec_batch}
       \<and> list_all2 built_from (created r) (map (\<lambda>i. spec_batch ! i) successful))"
proof -
  let ?r = "\<lparr>created = [\<lparr>c_pk = 1, c_name = ''A'', c_email = ''a@x.com'', c_phone = []\<rparr>],
             errors = [\<lparr>be_index = 1, be_email = Some ''b@x.com'',
                        be_message = ''Both name and email are required.''\<rparr>,
                       \<lparr>be_index = 2, be_email = Some ''a@x.com'',
                        be_message = EMAIL_EXISTS_MSG\<rparr>]\<rparr>"
  have ev: "fst (BulkCreateCustomers_mutate no_error empty_store spec_batch) = Inr ?r"
    by code_simp
  from bulk_ordering_invariant [where err = no_error and st = empty_store and cs = spec_batch]
  have "case Inr ?r of
      Inl e \<Rightarrow> e = OtherException TransactionManagementError_msg
    | Inr r \<Rightarrow>
        (let failing = map be_index (errors r);
             successful = [i \<leftarrow> [0..<length spec_batch]. i \<notin> set failing]
         in length (created r) + length (errors r) = length spec_batch
            \<and> sorted_wrt (<) failing
            \<and> set failing \<subseteq> {0..<length spec_batch}
            \<and> list_all2 built_from (created r) (map (\<lambda>i. spec_batch ! i) successful))"
    unfolding ev by (rule conjunct1)
  then show ?thesis
    unfolding Let_def sum.case using ev by (rule conjI [rotated])
qed

text \<open>
  C4. A failure raised while one item is processed can leave the call. The batch
  holds three valid inputs with three different emails, the store is empty, and the
  database fails to write the second row. The handler of that failure rolls back to
  the savepoint of the item; the transaction is already marked for rollback, so the
  rollback itself raises a \<open>TransactionManagementError\<close>, which no handler catches.
  The call raises it: it returns no \<open>created\<close> and no \<open>errors\<close> list, the failure of
  the second item is not reported as an unexpected error, the third item is not
  processed, and the row of the first item is rolled back with the rest.
\<close>

theorem bulk_storage_fault_escapes:
  "BulkCreateCustomers_mutate faulty_save empty_store three_valid_batch
     = (Inl (OtherException TransactionManagementError_msg), empty_store)"
  by code_simp

text \<open>
  An item that fails before anything is written is reported and the batch goes on: a
  null element of the batch raises an \<open>AttributeError\<close>, which becomes an entry
  tagged as unexpected, and the input after it is created.
\<close>

lemma bulk_null_element_reported:
  "fst (BulkCreateCustomers_mutate no_error empty_store batch_with_null)
     = Inr \<lparr>created = [\<lparr>c_pk = 1, c_name = ''A'', c_email = ''a@x.com'', c_phone = []\<rparr>],
            errors = [\<lparr>be_index = 0, be_email = None,
                       be_message = ''Unexpected error: '' @ NoneType_name_msg\<rparr>]\<rparr>"
  by code_simp

text \<open>
  C2, as the specification words it, fails: two inputs with the same email do not
  always make the first succeed and the second fail on its email. When the email is
  already in the store the first is rejected too; a second input without a name is
  rejected for the missing name; and when the first has a malformed phone it is the
  first that is rejected and the second that is created.
\<close>

theorem bulk_first_not_created_counterexample:
  "fst (BulkCreateCustomers_mutate no_error store_with_a same_email_batch)
     = Inr \<lparr>created = [],
            errors = [\<lparr>be_index = 0, be_email = Some ''a@x.com'',
                       be_message = ''Email already exists.''\<rparr>,
                      \<lparr>be_index = 1, be_email = Some ''a@x.com'',
                       be_message = ''Email already exists.''\<rparr>]\<rparr>
   \<and> fst (BulkCreateCustomers_mutate no_error empty_store nameless_second_batch)
     = Inr \<lparr>created = [\<lparr>c_pk = 1, c_name = ''A'', c_email = ''a@x.com'', c_phone = []\<rparr>],
            errors = [\<lparr>be_index = 1, be_email = Some ''a@x.com'',
                       be_message = ''Both name and email are required.''\<rparr>]\<rparr>
   \<and> fst (BulkCreateCustomers_mutate no_error empty_store bad_phone_first_batch)
     = Inr \<lparr>created = [\<lparr>c_pk = 1, c_name = ''B'', c_email = ''a@x.com'', c_phone = []\<rparr>],
            errors = [\<lparr>be_index = 0, be_email = Some ''a@x.com'',
                       be_message = ''Invalid phone format. Use +1234567890 or 123-456-7890.''\<rparr>]\<rparr>"
  by code_simp

text \<open>
  C2, in the form that holds on the code. Take a call that returns, and two inputs
  \<open>i < j\<close> of its batch with the same email. Let the email have no surrounding
  whitespace, let the first input have a name and a well-formed phone (or none), let
  the second have a name, and let no customer of the store that item \<open>i\<close> runs on
  have the email, ignoring case. Then the first input is not among the errors and a
  row with its trimmed name and its email is in \<open>created\<close>, and the second input is
  reported with \<open>EMAIL_EXISTS_MSG\<close>. Item \<open>k\<close> of a batch runs on a store whose
  customers are those the call started with followed by every row created from the
  items before it. On the empty store the batch of the specification gives one
  created row and the two reported errors.
\<close>

theorem bulk_duplicate_within_batch:
  "(fst (BulkCreateCustomers_mutate err st cs) = Inr r
      \<and> i < j \<and> j < length cs \<and> cs ! i = Some a \<and> cs ! j = Some b
      \<and> ci_email a = ci_email b \<and> strip (ci_email a) = ci_email a
      \<and> ci_name a \<noteq> [] \<and> ci_email a \<noteq> [] \<and> validate_phone (ci_phone a) = None
      \<and> ci_name b \<noteq> []
      \<and> validate_email_unique (snd (BulkCreateCustomers_mutate err st (take i cs))) (ci_email a)
          = None
    \<longrightarrow> i \<notin> set (map be_index (errors r))
        \<and> (\<exists>obj \<in> set (created r). c_email obj = ci_email a \<and> c_name obj = strip (ci_name a))
        \<and> \<lparr>be_index = j, be_email = Some (ci_email b), be_message = EMAIL_EXISTS_MSG\<rparr>
            \<in> set (errors r))
   \<and> (fst (BulkCreateCustomers_mutate err st (take k cs)) = Inr rk
    \<longrightarrow> customers (snd (BulkCreateCustomers_mutate err st (take k cs)))
          = customers st @ created rk)
   \<and> fst (BulkCreateCustomers_mutate no_error empty_store spec_batch)
       = Inr \<lparr>created = [\<lparr>c_pk = 1, c_name = ''A'', c_email = ''a@x.com'', c_phone = []\<rparr>],
              errors = [\<lparr>be_index = 1, be_email = Some ''b@x.com'',
                         be_message = ''Both name and email are required.''\<rparr>,
                        \<lparr>be_index = 2, be_email = Some ''a@x.com'',
                         be_message = EMAIL_EXISTS_MSG\<rparr>]\<rparr>"
proof (rule conjI [OF _ conjI])
  show "fst (BulkCreateCustomers_mutate err st cs) = Inr r
      \<and> i < j \<and> j < length cs \<and> cs ! i = Some a \<and> cs ! j = Some b
      \<and> ci_email a = ci_email b \<and> strip (ci_email a) = ci_email a
      \<and> ci_name a \<noteq> [] \<and> ci_email a \<noteq> [] \<and> validate_phone (ci_phone a) = None
      \<and> ci_name b \<noteq> []
      \<and> validate_email_unique (snd (BulkCreateCustomers_mutate err st (take i cs))) (ci_email a)
          = None
    \<longrightarrow> i \<notin> set (map be_index (errors r))
        \<and> (\<exists>obj \<in> set (created r). c_email obj = ci_email a \<and> c_name obj = strip (ci_name a))
        \<and> \<lparr>be_index = j, be_email = Some (ci_email b), be_message = EMAIL_EXISTS_MSG\<rparr>
            \<in> set (errors r)"
  proof (rule impI)
    assume h: "fst (BulkCreateCustomers_mutate err st cs) = Inr r
      \<and> i < j \<and> j < length cs \<and> cs ! i = Some a \<and> cs ! j = Some b
      \<and> ci_email a = ci_email b \<and> strip (ci_email a) = ci_email a
      \<and> ci_name a \<noteq> [] \<and> ci_email a \<noteq> [] \<and> validate_phone (ci_phone a) = None
      \<and> ci_name b \<noteq> []
      \<and> validate_email_unique (snd (BulkCreateCustomers_mutate err st (take i cs))) (ci_email a)
          = None"
    then have ret: "fst (BulkCreateCustomers_mutate err st cs) = Inr r"
      and ij: "i < j" "j < length cs"
      and inputs: "cs ! i = Some a" "cs ! j = Some b"
      and same: "ci_email a = ci_email b" "strip (ci_email a) = ci_email a"
      and valid: "ci_name a \<noteq> []" "ci_email a \<noteq> []" "validate_phone (ci_phone a) = None"
        "ci_name b \<noteq> []"
      and absent: "validate_email_unique (snd (BulkCreateCustomers_mutate err st (take i cs)))
          (ci_email a) = None"
      by blast+
    from bulk_mutate_returns [OF ret] obtain st'
      where run: "bulk_loop err 0 cs ([], [], st) = Inr (created r, errors r, st')"
      by blast
    from ij have "i < length cs" by simp
    from bulk_loop_at [OF run this] obtain cri eri sti
      where pre: "bulk_loop err 0 (take i cs) ([], [], st) = Inr (cri, eri, sti)"
      by blast
    have "snd (BulkCreateCustomers_mutate err st (take i cs)) = sti"
      by (simp add: bulk_mutate_Inr [OF pre])
    with absent have absent': "validate_email_unique sti (ci_email a) = None" by simp
    from bulk_loop_pair [OF run pre ij inputs same valid absent']
    show "i \<notin> set (map be_index (errors r))
        \<and> (\<exists>obj \<in> set (created r). c_email obj = ci_email a \<and> c_name obj = strip (ci_name a))
        \<and> \<lparr>be_index = j, be_email = Some (ci_email b), be_message = EMAIL_EXISTS_MSG\<rparr>
            \<in> set (errors r)"
      unfolding add_0 by (intro conjI)
  qed
  show "fst (BulkCreateCustomers_mutate err st (take k cs)) = Inr rk
    \<longrightarrow> customers (snd (BulkCreateCustomers_mutate err st (take k cs)))
          = customers st @ created rk"
  proof (rule impI)
    assume ret: "fst (BulkCreateCustomers_mutate err st (take k cs)) = Inr rk"
    from bulk_mutate_returns [OF ret] obtain st'
      where run: "bulk_loop err 0 (take k cs) ([], [], st) = Inr (created rk, errors rk, st')"
        and s: "snd (BulkCreateCustomers_mutate err st (take k cs)) = st'"
      by blast
    from bulk_loop_customers [OF run] s
    show "customers (snd (BulkCreateCustomers_mutate err st (take k cs)))
          = customers st @ created rk"
      by simp
  qed
  show "fst (BulkCreateCustomers_mutate no_error empty_store spec_batch)
       = Inr \<lparr>created = [\<lparr>c_pk = 1, c_name = ''A'', c_email = ''a@x.com'', c_phone = []\<rparr>],
              errors = [\<lparr>be_index = 1, be_email = Some ''b@x.com'',
                         be_message = ''Both name and email are required.''\<rparr>,
                        \<lparr>be_index = 2, be_email = Some ''a@x.com'',
                         be_message = EMAIL_EXISTS_MSG\<rparr>]\<rparr>"
    by code_simp
qed

theorem bulk_duplicate_within_batch_witness:
  "(let a = \<lparr>ci_name = ''A'', ci_email = ''a@x.com'', ci_phone = None\<rparr>;
        b = \<lparr>ci_name = ''C'', ci_email = ''a@x.com'', ci_phone = None\<rparr>;
        r = \<lparr>created = [\<lparr>c_pk = 1, c_name = ''A'', c_email = ''a@x.com'', c_phone = []\<rparr>],
             errors = [\<lparr>be_index = 1, be_email = Some ''b@x.com'',
                        be_message = ''Both name and email are required.''\<rparr>,
                       \<lparr>be_index = 2, be_email = Some ''a@x.com'',
                        be_message = EMAIL_EXISTS_MSG\<rparr>]\<rparr>
    in fst (BulkCreateCustomers_mutate no_error empty_store spec_batch) = Inr r
       \<and> (0::nat) < 2 \<and> 2 < length spec_batch
       \<and> spec_batch ! 0 = Some a \<and> spec_batch ! 2 = Some b
       \<and> ci_email a = ci_email b \<and> strip (ci_email a) = ci_email a
       \<and> ci_name a \<noteq> [] \<and> ci_email a \<noteq> [] \<and> validate_phone (ci_phone a) = None
       \<and> ci_name b \<noteq> []
       \<and> validate_email_unique
            (snd (BulkCreateCustomers_mutate no_error empty_store (take 0 spec_batch)))
            (ci_email a) = None
       \<and> 0 \<notin> set (map be_index (errors r))
       \<and> (\<exists>obj \<in> set (created r). c_email obj = ci_email a \<and> c_name obj = strip (ci_name a))
       \<and> \<lparr>be_index = 2, be_email = Some (ci_email b), be_message = EMAIL_EXISTS_MSG\<rparr>
           \<in> set (errors r))"
proof -
  let ?a = "\<lparr>ci_name = ''A'', ci_email = ''a@x.com'', ci_phone = None\<rparr>"
  let ?b = "\<lparr>ci_name = ''C'', ci_email = ''a@x.com'', ci_phone = None\<rparr>"
  let ?r = "\<lparr>created = [\<lparr>c_pk = 1, c_name = ''A'', c_email = ''a@x.com'', c_phone = []\<rparr>],
             errors = [\<lparr>be_index = 1, be_email = Some ''b@x.com'',
                        be_message = ''Both name and email are required.''\<rparr>,
                       \<lparr>be_index = 2, be_email = Some ''a@x.com'',
                        be_message = EMAIL_EXISTS_MSG\<rparr>]\<rparr>"
  have h: "fst (BulkCreateCustomers_mutate no_error empty_store spec_batch) = Inr ?r
      \<and> (0::nat) < 2 \<and> 2 < length spec_batch
      \<and> spec_batch ! 0 = Some ?a \<and> spec_batch ! 2 = Some ?b
      \<and> ci_email ?a = ci_email ?b \<and> strip (ci_email ?a) = ci_email ?a
      \<and> ci_name ?a \<noteq> [] \<and> ci_email ?a \<noteq> [] \<and> validate_phone (ci_phone ?a) = None
      \<and> ci_name ?b \<noteq> []
      \<and> validate_email_unique
           (snd (BulkCreateCustomers_mutate no_error empty_store (take 0 spec_batch)))
           (ci_email ?a) = None"
    by code_simp
  note inst = bulk_duplicate_within_batch
    [where err = no_error and st = empty_store and cs = spec_batch and r = ?r
       and i = 0 and j = 2 and a = ?a and b = ?b, THEN conjunct1, THEN mp, OF h]
  from h inst show ?thesis
    unfolding Let_def by blast
qed

section \<open>Claims about CreateCustomer\<close>

text \<open>
  C3. The uniqueness check reads the email as given, the row stores it trimmed. With a
  customer \<open>a@x.com\<close> in the store, creating a customer with the email \<open>A@X.COM\<close>
  preceded by a space passes the check and leaves two rows whose emails are equal
  ignoring case, also when the column has a unique index on the exact email; a batch
  with the same padded email twice creates both rows.
\<close>

theorem create_customer_padded_email_duplicates:
  "emails_unique store_with_a
   \<and> CreateCustomer_mutate no_error store_with_a ''B'' '' A@X.COM'' None
       = (Inr \<lparr>cc_ok = True, cc_message = ''Customer created.'',
               cc_customer = \<lparr>c_pk = 2, c_name = ''B'', c_email = ''A@X.COM'', c_phone = []\<rparr>\<rparr>,
          \<lparr>customers = [\<lparr>c_pk = 1, c_name = ''Z'', c_email = ''a@x.com'', c_phone = []\<rparr>,
                        \<lparr>c_pk = 2, c_name = ''B'', c_email = ''A@X.COM'', c_phone = []\<rparr>],
             products = [], orders = [], order_products = []\<rparr>)
   \<and> \<not> emails_unique (snd (CreateCustomer_mutate no_error store_with_a ''B'' '' A@X.COM'' None))
   \<and> \<not> emails_unique
         (snd (CreateCustomer_mutate unique_email_column store_with_a ''B'' '' A@X.COM'' None))
   \<and> fst (BulkCreateCustomers_mutate no_error empty_store padded_batch)
       = Inr \<lparr>created = [\<lparr>c_pk = 1, c_name = ''A'', c_email = ''a@x.com'', c_phone = []\<rparr>,
                         \<lparr>c_pk = 2, c_name = ''B'', c_email = ''a@x.com'', c_phone = []\<rparr>],
              errors = []\<rparr>
   \<and> \<not> emails_unique (snd (BulkCreateCustomers_mutate no_error empty_store padded_batch))"
  by code_simp

text \<open>
  C5. \<open>CreateCustomer.mutate\<close> has no check of the name: a call with an empty name, or
  with a name of spaces only, returns a customer and leaves a row with the empty name.
\<close>

theorem create_customer_accepts_blank_name:
  "CreateCustomer_mutate no_error empty_store [] ''a@x.com'' None
     = (Inr \<lparr>cc_ok = True, cc_message = ''Customer created.'',
             cc_customer = \<lparr>c_pk = 1, c_name = [], c_email = ''a@x.com'', c_phone = []\<rparr>\<rparr>,
        \<lparr>customers = [\<lparr>c_pk = 1, c_name = [], c_email = ''a@x.com'', c_phone = []\<rparr>],
           products = [], orders = [], order_products = []\<rparr>)
   \<and> CreateCustomer_mutate no_error empty_store ''   '' ''a@x.com'' None
     = (Inr \<lparr>cc_ok = True, cc_message = ''Customer created.'',
             cc_customer = \<lparr>c_pk = 1, c_name = [], c_email = ''a@x.com'', c_phone = []\<rparr>\<rparr>,
        \<lparr>customers = [\<lparr>c_pk = 1, c_name = [], c_email = ''a@x.com'', c_phone = []\<rparr>],
           products = [], orders = [], order_products = []\<rparr>)"
  by code_simp

section \<open>Claims about CreateOrder\<close>

text \<open>
  C6. Whenever \<open>CreateOrder.mutate\<close> raises, the store it leaves is the store it
  started from. This covers the failures inside the atomic block: when assigning the
  product links fails after the order row was written, the row does not persist.
\<close>

theorem create_order_atomic:
  assumes "fst (CreateOrder_mutate env st customer_id product_ids order_date) = Inl e"
  shows "snd (CreateOrder_mutate env st customer_id product_ids order_date) = st"
  using assms
  by (auto simp: CreateOrder_mutate_def Let_def atomic_def
      split: if_splits option.splits prod.splits sum.splits)

theorem create_order_atomic_witness:
  "fst (CreateOrder_mutate set_fails_env shop 1 [1, 2] None)
     = Inl (OtherException ''link table unavailable'')
   \<and> snd (CreateOrder_mutate set_fails_env shop 1 [1, 2] None) = shop
   \<and> orders (snd (order_block set_fails_env (hd (customers shop)) None
                     (Decimal 149998 (- 2)) (products shop) shop))
       = [\<lparr>o_pk = 1, o_customer = 1, o_order_date = 7, o_total_amount = Decimal 149998 (- 2)\<rparr>]
   \<and> orders shop = []"
proof -
  have h: "fst (CreateOrder_mutate set_fails_env shop 1 [1, 2] None)
     = Inl (OtherException ''link table unavailable'')"
    by code_simp
  have d: "orders (snd (order_block set_fails_env (hd (customers shop)) None
                     (Decimal 149998 (- 2)) (products shop) shop))
       = [\<lparr>o_pk = 1, o_customer = 1, o_order_date = 7, o_total_amount = Decimal 149998 (- 2)\<rparr>]"
    by code_simp
  have e: "orders shop = []" by (simp add: shop_def)
  show ?thesis by (intro conjI h d e create_order_atomic [OF h])
qed

text \<open>
  C7. The order that a successful call returns is a row of the store, and its
  \<open>total_amount\<close> is the sum, started from \<open>Decimal("0.00")\<close>, of the prices of the
  products that the association table links to it. Python adds decimals under a
  context of 28 significant digits. When the linked prices stay within that precision
  (the sum of their absolute values has a coefficient of at most 28 digits, as prices
  of a column of bounded digits do), no addition rounds: the number the total denotes
  is the sum of the numbers the prices denote, and summing the linked products in any
  other order gives the same \<open>Decimal\<close>. For the prices 999.99 and 499.99 the total is
  1499.98.
\<close>

theorem create_order_total:
  assumes "CreateOrder_mutate env st customer_id product_ids order_date = (Inr r, st')"
  shows "co_order r \<in> set (orders st')
     \<and> o_total_amount (co_order r)
         = py_sum (map p_price (linked_products st' (co_order r))) (Decimal 0 (- 2))
     \<and> (within_precision (map p_price (linked_products st' (co_order r)))
        \<longrightarrow> dec_val (o_total_amount (co_order r))
              = sum_list (map (\<lambda>p. dec_val (p_price p)) (linked_products st' (co_order r)))
            \<and> (\<forall>ps. mset ps = mset (linked_products st' (co_order r))
                   \<longrightarrow> py_sum (map p_price ps) (Decimal 0 (- 2))
                         = o_total_amount (co_order r)))"
proof -
  let ?prices = "map p_price (linked_products st' (co_order r))"
  from assms obtain pks where linked: "linked_products st' (co_order r) = found st pks"
    and os: "orders st' = orders st @ [co_order r]"
    and total: "o_total_amount (co_order r) = py_sum (map p_price (found st pks)) (Decimal 0 (- 2))"
    by (rule CreateOrder_success_store)
  have a: "co_order r \<in> set (orders st')" by (simp add: os)
  have b: "o_total_amount (co_order r) = py_sum ?prices (Decimal 0 (- 2))"
    by (simp only: linked total)
  have c: "dec_val (o_total_amount (co_order r))
      = sum_list (map (\<lambda>p. dec_val (p_price p)) (linked_products st' (co_order r)))"
    if w: "within_precision ?prices"
    by (simp only: b py_sum_val [OF w] map_map comp_def)
  have d: "py_sum (map p_price ps) (Decimal 0 (- 2)) = o_total_amount (co_order r)"
    if w: "within_precision ?prices"
      and m: "mset ps = mset (linked_products st' (co_order r))" for ps
  proof -
    from m have "mset (map p_price ps) = mset ?prices" by simp
    with w show ?thesis unfolding b by (rule py_sum_permute)
  qed
  from a b c d show ?thesis by blast
qed

theorem create_order_total_witness:
  "CreateOrder_mutate plain_env shop 1 [1, 2] None = (Inr shop_result, shop_after)
   \<and> map p_price (linked_products shop_after (co_order shop_result))
       = [Decimal 99999 (- 2), Decimal 49999 (- 2)]
   \<and> within_precision (map p_price (linked_products shop_after (co_order shop_result)))
   \<and> o_total_amount (co_order shop_result) = Decimal 149998 (- 2)
   \<and> dec_val (Decimal 149998 (- 2)) = 149998 / 100
   \<and> co_order shop_result \<in> set (orders shop_after)
   \<and> o_total_amount (co_order shop_result)
       = py_sum (map p_price (linked_products shop_after (co_order shop_result))) (Decimal 0 (- 2))
   \<and> dec_val (o_total_amount (co_order shop_result))
       = sum_list (map (\<lambda>p. dec_val (p_price p))
           (linked_products shop_after (co_order shop_result)))
   \<and> py_sum (map p_price (rev (linked_products shop_after (co_order shop_result))))
         (Decimal 0 (- 2))
       = o_total_amount (co_order shop_result)"
proof -
  have h: "CreateOrder_mutate plain_env shop 1 [1, 2] None = (Inr shop_result, shop_after)"
    by code_simp
  have l: "map p_price (linked_products shop_after (co_order shop_result))
       = [Decimal 99999 (- 2), Decimal 49999 (- 2)]"
    by code_simp
  have w: "within_precision (map p_price (linked_products shop_after (co_order shop_result)))"
    by code_simp
  have t: "o_total_amount (co_order shop_result) = Decimal 149998 (- 2)"
    by (simp add: shop_result_def shop_order_def)
  have v: "dec_val (Decimal 149998 (- 2)) = 149998 / 100"
    by simp
  note inst = create_order_total [OF h]
  note exact = inst [THEN conjunct2, THEN conjunct2, THEN mp, OF w]
  have m: "mset (rev (linked_products shop_after (co_order shop_result)))
      = mset (linked_products shop_after (co_order shop_result))"
    by simp
  note p = exact [THEN conjunct2, THEN spec, THEN mp, OF m]
  show ?thesis
    by (intro conjI h l w t v p inst [THEN conjunct1] inst [THEN conjunct2, THEN conjunct1]
        exact [THEN conjunct1])
qed

text \<open>
  C8, as the specification words it, fails: product ids that are integers of no
  product do not always make the call name them. The customer is looked up first, so
  with an unknown customer the call raises \<open>Customer not found.\<close>; every id is
  converted before any product is looked up, so one id that is no integer makes the
  call raise \<open>All product IDs must be integers.\<close>; and a key outside the 64-bit range
  makes the query itself raise.
\<close>

theorem create_order_other_error_counterexample:
  "CreateOrder_mutate plain_env shop 99 [999] None
     = (Inl (GraphQLError ''Customer not found.''), shop)
   \<and> CreateOrder_mutate str_env shop ''1'' [''999'', ''abc''] None
     = (Inl (GraphQLError ''All product IDs must be integers.''), shop)
   \<and> CreateOrder_mutate plain_env shop 1 [1, 2 ^ 63] None
     = (Inl (OtherException OverflowError_msg), shop)"
  by code_simp

text \<open>
  C8, in the form that holds on the code. When the customer id is an integer and the
  key of a customer, every product id is an integer within the 64-bit range, and some
  of these integers is the key of no product, the call raises the error whose message
  lists the keys without a product, each once, in increasing order, and the store is
  unchanged.
\<close>

theorem create_order_missing_products:
  assumes "py_int env customer_id = Some customer_pk"
    and "\<exists>c \<in> set (customers st). c_pk c = customer_pk"
    and "map (py_int env) product_ids = map Some product_pks"
    and "list_all fits_int64 product_pks"
    and "\<not> set product_pks \<subseteq> p_pk ` set (products st)"
  shows "(let missing = {k \<in> set product_pks. k \<notin> p_pk ` set (products st)};
              named = sorted_list_of_set missing
          in CreateOrder_mutate env st customer_id product_ids order_date
               = (Inl (GraphQLError (''Invalid product ID(s): '' @ str_int_list named)), st)
             \<and> sorted named \<and> distinct named \<and> set named = missing)"
proof -
  let ?missing = "{k \<in> set product_pks. k \<notin> p_pk ` set (products st)}"
  have fin: "finite ?missing" by simp
  have ne: "product_ids \<noteq> []" using assms(3,5) by auto
  obtain c where c: "find (\<lambda>c. c_pk c = customer_pk) (customers st) = Some c"
    using find_present [OF assms(2)] by blast
  have pks: "those (map (py_int env) product_ids) = Some product_pks"
    by (simp add: assms(3) those_map_Some)
  have run: "CreateOrder_mutate env st customer_id product_ids order_date
      = (Inl (GraphQLError (''Invalid product ID(s): ''
            @ str_int_list (sorted_list_of_set ?missing))), st)"
    unfolding CreateOrder_resolved [OF ne assms(1) c pks]
    using assms(4,5) by (simp only: not_True_eq_False not_False_eq_True if_False if_True simp_thms)
  have props: "sorted (sorted_list_of_set ?missing)" "distinct (sorted_list_of_set ?missing)"
    "set (sorted_list_of_set ?missing) = ?missing"
    using fin by simp_all
  show ?thesis unfolding Let_def using run props by blast
qed

theorem create_order_missing_products_witness:
  "py_int plain_env 1 = Some 1
   \<and> (\<exists>c \<in> set (customers shop). c_pk c = 1)
   \<and> map (py_int plain_env) [1, 2, 999] = map Some [1, 2, 999]
   \<and> list_all fits_int64 [1, 2, 999]
   \<and> \<not> set [1, 2, 999] \<subseteq> p_pk ` set (products shop)
   \<and> CreateOrder_mutate plain_env shop 1 [1, 2, 999] None
       = (Inl (GraphQLError ''Invalid product ID(s): [999]''), shop)
   \<and> (let missing = {k \<in> set [1, 2, 999]. k \<notin> p_pk ` set (products shop)};
           named = sorted_list_of_set missing
       in CreateOrder_mutate plain_env shop 1 [1, 2, 999] None
            = (Inl (GraphQLError (''Invalid product ID(s): '' @ str_int_list named)), shop)
          \<and> sorted named \<and> distinct named \<and> set named = missing)"
proof -
  have h1: "py_int plain_env 1 = Some 1" by (simp add: plain_env_def)
  have h2: "\<exists>c \<in> set (customers shop). c_pk c = 1" by (simp add: shop_def)
  have h3: "map (py_int plain_env) [1, 2, 999] = map Some [1, 2, 999]"
    by (simp add: plain_env_def)
  have h4: "list_all fits_int64 [1, 2, 999]" by (simp add: fits_int64_def)
  have h5: "\<not> set [1, 2, 999] \<subseteq> p_pk ` set (products shop)" by (simp add: shop_def)
  have ev: "CreateOrder_mutate plain_env shop 1 [1, 2, 999] None
       = (Inl (GraphQLError ''Invalid product ID(s): [999]''), shop)"
    by code_simp
  show ?thesis
    by (intro conjI h1 h2 h3 h4 h5 ev create_order_missing_products [OF h1 h2 h3 h4 h5])
qed

text \<open>
  C10. A call gives the same result and the same store as the call with the duplicates
  removed from its product ids. When it succeeds on a store whose products have
  distinct keys, each requested key has exactly one row in the association table for
  the new order and exactly one linked product, and the total is the sum over these
  linked products.
\<close>

theorem create_order_deduplicates:
  "CreateOrder_mutate env st customer_id product_ids order_date
     = CreateOrder_mutate env st customer_id (remdups product_ids) order_date
   \<and> (distinct (map p_pk (products st))
        \<and> CreateOrder_mutate env st customer_id product_ids order_date = (Inr r, st')
        \<and> map (py_int env) product_ids = map Some product_pks
      \<longrightarrow> (\<forall>k \<in> set product_pks.
             count_list (order_products st') (o_pk (co_order r), k) = 1
             \<and> count_list (map p_pk (linked_products st' (co_order r))) k = 1)
          \<and> o_total_amount (co_order r)
              = py_sum (map p_price (linked_products st' (co_order r))) (Decimal 0 (- 2)))"
proof (rule conjI)
  show "CreateOrder_mutate env st customer_id product_ids order_date
     = CreateOrder_mutate env st customer_id (remdups product_ids) order_date"
    by (rule CreateOrder_mutate_set_cong) simp
next
  show "distinct (map p_pk (products st))
        \<and> CreateOrder_mutate env st customer_id product_ids order_date = (Inr r, st')
        \<and> map (py_int env) product_ids = map Some product_pks
      \<longrightarrow> (\<forall>k \<in> set product_pks.
             count_list (order_products st') (o_pk (co_order r), k) = 1
             \<and> count_list (map p_pk (linked_products st' (co_order r))) k = 1)
          \<and> o_total_amount (co_order r)
              = py_sum (map p_price (linked_products st' (co_order r))) (Decimal 0 (- 2))"
  proof (rule impI)
  assume h: "distinct (map p_pk (products st))
        \<and> CreateOrder_mutate env st customer_id product_ids order_date = (Inr r, st')
        \<and> map (py_int env) product_ids = map Some product_pks"
  then have ok: "CreateOrder_mutate env st customer_id product_ids order_date = (Inr r, st')"
    and dist0: "distinct (map p_pk (products st))"
    and parsed: "map (py_int env) product_ids = map Some product_pks"
    by blast+
  from ok obtain pks where those: "those (map (py_int env) product_ids) = Some pks"
    and sub: "set pks \<subseteq> p_pk ` set (products st)"
    and linked: "linked_products st' (co_order r) = found st pks"
    and ls: "order_products st' = filter (\<lambda>l. fst l \<noteq> o_pk (co_order r)) (order_products st)
               @ map (\<lambda>p. (o_pk (co_order r), p_pk p)) (found st pks)"
    and total: "o_total_amount (co_order r) = py_sum (map p_price (found st pks)) (Decimal 0 (- 2))"
    by (rule CreateOrder_success_store)
  have pks: "pks = product_pks" using those parsed by (simp add: those_map_Some)
  have dist: "distinct (map p_pk (found st pks))"
    using dist0 unfolding found_def by (rule distinct_map_filter)
  have once: "count_list (map p_pk (found st pks)) k = 1" if "k \<in> set pks" for k
  proof -
    from that sub have "k \<in> set (map p_pk (found st pks))"
      unfolding found_def by auto
    with dist show ?thesis by (rule count_list_distinct)
  qed
  have rows: "count_list (order_products st') (o_pk (co_order r), k)
      = count_list (map p_pk (found st pks)) k" for k
    unfolding ls by (simp add: count_list_pair_map count_list_filter_fst)
  have links: "\<forall>k \<in> set product_pks.
             count_list (order_products st') (o_pk (co_order r), k) = 1
             \<and> count_list (map p_pk (linked_products st' (co_order r))) k = 1"
    using once by (simp add: rows linked pks)
  have sum: "o_total_amount (co_order r)
              = py_sum (map p_price (linked_products st' (co_order r))) (Decimal 0 (- 2))"
    by (simp only: linked total)
  from links sum
  show "(\<forall>k \<in> set product_pks.
             count_list (order_products st') (o_pk (co_order r), k) = 1
             \<and> count_list (map p_pk (linked_products st' (co_order r))) k = 1)
          \<and> o_total_amount (co_order r)
              = py_sum (map p_price (linked_products st' (co_order r))) (Decimal 0 (- 2))"
    by (rule conjI)
  qed
qed

theorem create_order_deduplicates_witness:
  "distinct (map p_pk (products shop))
   \<and> CreateOrder_mutate plain_env shop 1 [2, 1, 2, 2] None = (Inr shop_result, shop_after)
   \<and> map (py_int plain_env) [2, 1, 2, 2] = map Some [2, 1, 2, 2]
   \<and> count_list (order_products shop_after) (o_pk (co_order shop_result), 2) = 1
   \<and> count_list (map p_pk (linked_products shop_after (co_order shop_result))) 2 = 1
   \<and> o_total_amount (co_order shop_result)
       = py_sum (map p_price (linked_products shop_after (co_order shop_result)))
           (Decimal 0 (- 2))
   \<and> CreateOrder_mutate plain_env shop 1 [2, 1, 2, 2] None
       = CreateOrder_mutate plain_env shop 1 (remdups [2, 1, 2, 2]) None
   \<and> o_total_amount (co_order shop_result) = Decimal 149998 (- 2)"
proof -
  have d: "distinct (map p_pk (products shop))" by (simp add: shop_def)
  have r: "CreateOrder_mutate plain_env shop 1 [2, 1, 2, 2] None = (Inr shop_result, shop_after)"
    by code_simp
  have p: "map (py_int plain_env) [2, 1, 2, 2] = map Some [2, 1, 2, 2]"
    by (simp add: plain_env_def)
  have h: "distinct (map p_pk (products shop))
      \<and> CreateOrder_mutate plain_env shop 1 [2, 1, 2, 2] None = (Inr shop_result, shop_after)
      \<and> map (py_int plain_env) [2, 1, 2, 2] = map Some [2, 1, 2, 2]"
    by (intro conjI d r p)
  note inst = create_order_deduplicates [of plain_env shop 1 "[2, 1, 2, 2]" None
      shop_result shop_after "[2, 1, 2, 2]"]
  note concl = inst [THEN conjunct2, THEN mp, OF h]
  have k: "(2::int) \<in> set [2, 1, 2, 2]" by simp
  note two = concl [THEN conjunct1, THEN bspec, OF k]
  have t: "o_total_amount (co_order shop_result) = Decimal 149998 (- 2)"
    by (simp add: shop_result_def shop_order_def)
  show ?thesis
    by (intro conjI d r p t inst [THEN conjunct1] two [THEN conjunct1] two [THEN conjunct2]
        concl [THEN conjunct2])
qed

section \<open>Claims about validate_price_and_stock\<close>

text \<open>
  What the function does, case by case. It raises the error on the price format when
  the conversion to \<open>Decimal\<close> fails, the error on a non-positive price when the price
  is a number at most zero or the negative infinity, and, for a positive price, the
  error on the stock when a stock is given and negative; a negative stock never
  passes. For a positive price and no negative stock it returns the converted price
  with the stock, or with 0 when no stock is given. Validating a returned pair again
  returns the same pair. A NaN price raises the exception of the comparison, and the
  positive infinity counts as a positive price.
\<close>

lemma validate_price_and_stock_cases:
  "(let v = validate_price_and_stock conv price stock;
        parsed = Decimal_str conv price
    in (parsed = None \<longrightarrow> v = Inl (GraphQLError ''Price must be a valid decimal number.''))
     \<and> (\<forall>d. parsed = Some (Finite d) \<and> dec_val d \<le> 0
          \<longrightarrow> v = Inl (GraphQLError ''Price must be positive.''))
     \<and> (parsed = Some NegInfinity \<longrightarrow> v = Inl (GraphQLError ''Price must be positive.''))
     \<and> (parsed = Some NaN \<longrightarrow> v = Inl (OtherException InvalidOperation_msg))
     \<and> (\<forall>p s. parsed = Some p \<and> is_positive p \<and> stock = Some s \<and> s < 0
          \<longrightarrow> v = Inl (GraphQLError ''Stock cannot be negative.''))
     \<and> (\<forall>s. stock = Some s \<and> s < 0 \<longrightarrow> isl v)
     \<and> (\<forall>p s. parsed = Some p \<and> is_positive p \<and> stock = Some s \<and> 0 \<le> s
          \<longrightarrow> v = Inr (p, s))
     \<and> (\<forall>p. parsed = Some p \<and> is_positive p \<and> stock = None \<longrightarrow> v = Inr (p, 0))
     \<and> (\<forall>p s. v = Inr (p, s)
          \<longrightarrow> validate_price_and_stock conv (PDecimal p) (Some s) = Inr (p, s)))"
proof -
  let ?v = "validate_price_and_stock conv price stock"
  let ?parsed = "Decimal_str conv price"
  have c1: "?parsed = None \<longrightarrow> ?v = Inl (GraphQLError ''Price must be a valid decimal number.'')"
    by (simp add: validate_unparsable)
  have c2: "\<forall>d. ?parsed = Some (Finite d) \<and> dec_val d \<le> 0
          \<longrightarrow> ?v = Inl (GraphQLError ''Price must be positive.'')"
  proof (intro allI impI, elim conjE)
    fix d assume h: "?parsed = Some (Finite d)" "dec_val d \<le> 0"
    show "?v = Inl (GraphQLError ''Price must be positive.'')"
      by (rule validate_not_positive [OF h(1) le_zero_finite [OF h(2)]])
  qed
  have c3: "?parsed = Some NegInfinity \<longrightarrow> ?v = Inl (GraphQLError ''Price must be positive.'')"
  proof
    assume h: "?parsed = Some NegInfinity"
    show "?v = Inl (GraphQLError ''Price must be positive.'')"
      by (rule validate_not_positive [OF h]) simp
  qed
  have c4: "?parsed = Some NaN \<longrightarrow> ?v = Inl (OtherException InvalidOperation_msg)"
  proof
    assume h: "?parsed = Some NaN"
    show "?v = Inl (OtherException InvalidOperation_msg)"
      by (rule validate_compare_raises [OF h]) simp
  qed
  have c5: "\<forall>p s. ?parsed = Some p \<and> is_positive p \<and> stock = Some s \<and> s < 0
          \<longrightarrow> ?v = Inl (GraphQLError ''Stock cannot be negative.'')"
  proof (intro allI impI, elim conjE)
    fix p s assume h: "?parsed = Some p" "is_positive p" "stock = Some s" "s < 0"
    show "?v = Inl (GraphQLError ''Stock cannot be negative.'')"
      using validate_positive [OF h(1) le_zero_positive [OF h(2)], of stock] h(3,4) by simp
  qed
  have c6: "\<forall>s. stock = Some s \<and> s < 0 \<longrightarrow> isl ?v"
    by (simp add: validate_negative_stock)
  have c7: "\<forall>p s. ?parsed = Some p \<and> is_positive p \<and> stock = Some s \<and> 0 \<le> s
          \<longrightarrow> ?v = Inr (p, s)"
  proof (intro allI impI, elim conjE)
    fix p s assume h: "?parsed = Some p" "is_positive p" "stock = Some s" "0 \<le> s"
    show "?v = Inr (p, s)"
      using validate_positive [OF h(1) le_zero_positive [OF h(2)], of stock] h(3,4) by simp
  qed
  have c8: "\<forall>p. ?parsed = Some p \<and> is_positive p \<and> stock = None \<longrightarrow> ?v = Inr (p, 0)"
  proof (intro allI impI, elim conjE)
    fix p assume h: "?parsed = Some p" "is_positive p" "stock = None"
    show "?v = Inr (p, 0)"
      using validate_positive [OF h(1) le_zero_positive [OF h(2)], of stock] h(3) by simp
  qed
  have c9: "\<forall>p s. ?v = Inr (p, s)
          \<longrightarrow> validate_price_and_stock conv (PDecimal p) (Some s) = Inr (p, s)"
    by (simp add: validate_again)
  show ?thesis
    unfolding Let_def by (intro conjI c1 c2 c3 c4 c5 c6 c7 c8 c9)
qed

lemma validate_price_and_stock_examples:
  "validate_price_and_stock str_conv (POther ''19.99'') (Some 5)
     = Inr (Finite (Decimal 1999 (- 2)), 5)
   \<and> validate_price_and_stock str_conv (PDecimal (Finite (Decimal 1999 (- 2)))) (Some 5)
       = Inr (Finite (Decimal 1999 (- 2)), 5)
   \<and> validate_price_and_stock str_conv (POther ''abc'') (Some 5)
       = Inl (GraphQLError ''Price must be a valid decimal number.'')
   \<and> validate_price_and_stock str_conv (PDecimal (Finite (Decimal 0 (- 2)))) None
       = Inl (GraphQLError ''Price must be positive.'')
   \<and> validate_price_and_stock str_conv (POther ''19.99'') (Some (- 1))
       = Inl (GraphQLError ''Stock cannot be negative.'')
   \<and> validate_price_and_stock str_conv (POther ''19.99'') None
       = Inr (Finite (Decimal 1999 (- 2)), 0)
   \<and> validate_price_and_stock str_conv (PDecimal NaN) None
       = Inl (OtherException InvalidOperation_msg)"
proof -
  let ?p = "Finite (Decimal 1999 (- 2))"
  have c: "Decimal_str str_conv (POther ''19.99'') = Some ?p"
    by (simp add: str_conv_def)
  have n: "Decimal_str str_conv (POther ''abc'') = None"
    by (simp add: str_conv_def)
  have z: "Decimal_str str_conv (PDecimal (Finite (Decimal 0 (- 2)))) = Some (Finite (Decimal 0 (- 2)))"
    by simp
  have q: "Decimal_str str_conv (PDecimal NaN) = Some NaN"
    by simp
  have pos: "is_positive ?p" by simp
  have zero: "dec_val (Decimal 0 (- 2)) \<le> 0" by simp
  note s1 = validate_price_and_stock_cases [of str_conv "POther ''19.99''" "Some 5", unfolded Let_def]
  note s2 = validate_price_and_stock_cases [of str_conv "POther ''abc''" "Some 5", unfolded Let_def]
  note s3 = validate_price_and_stock_cases [of str_conv "PDecimal (Finite (Decimal 0 (- 2)))" None,
      unfolded Let_def]
  note s4 = validate_price_and_stock_cases [of str_conv "POther ''19.99''" "Some (- 1)",
      unfolded Let_def]
  note s5 = validate_price_and_stock_cases [of str_conv "POther ''19.99''" None, unfolded Let_def]
  note s6 = validate_price_and_stock_cases [of str_conv "PDecimal NaN" None, unfolded Let_def]
  have a1: "validate_price_and_stock str_conv (POther ''19.99'') (Some 5) = Inr (?p, 5)"
    using s1 c pos by simp
  have a2: "validate_price_and_stock str_conv (PDecimal ?p) (Some 5) = Inr (?p, 5)"
    using s1 a1 by blast
  have a3: "validate_price_and_stock str_conv (POther ''abc'') (Some 5)
       = Inl (GraphQLError ''Price must be a valid decimal number.'')"
    using s2 n by blast
  have a4: "validate_price_and_stock str_conv (PDecimal (Finite (Decimal 0 (- 2)))) None
       = Inl (GraphQLError ''Price must be positive.'')"
    using s3 z zero by blast
  have a5: "validate_price_and_stock str_conv (POther ''19.99'') (Some (- 1))
       = Inl (GraphQLError ''Stock cannot be negative.'')"
    using s4 c pos by simp
  have a6: "validate_price_and_stock str_conv (POther ''19.99'') None = Inr (?p, 0)"
    using s5 c pos by simp
  have a7: "validate_price_and_stock str_conv (PDecimal NaN) None
       = Inl (OtherException InvalidOperation_msg)"
    using s6 q by blast
  show ?thesis by (intro conjI a1 a2 a3 a4 a5 a6 a7)
qed

text \<open>
  C9. The function does not settle every price as an invalid price, a non-positive
  price or a valid one. The conversion to \<open>Decimal\<close> accepts NaN and the infinities, and
  nothing after it rules them out: for the price \<open>Decimal("NaN")\<close> the comparison
  \<open>price <= 0\<close> raises \<open>decimal.InvalidOperation\<close>, which is neither of the two
  validation errors, and the price \<open>Decimal("Infinity")\<close> is returned as a valid price.
\<close>

theorem validate_price_and_stock_nan:
  "validate_price_and_stock str_conv (PDecimal NaN) None
     = Inl (OtherException InvalidOperation_msg)
   \<and> validate_price_and_stock str_conv (PDecimal NaN) (Some 5)
     = Inl (OtherException InvalidOperation_msg)
   \<and> validate_price_and_stock str_conv (PDecimal PosInfinity) None = Inr (PosInfinity, 0)"
  by code_simp

end
